theory Spec2Isabelle
  imports Main "HOL-Library.AList"
begin

section \<open>Python values\<close>

text \<open>
  The values that travel through the data-access layer of \<^verbatim>\<open>orm_framework.py\<close>:
  bound parameters, attribute values of a model instance, and fetched results (a row is a
  dict, a result set is a list of dicts). Python decides \<^verbatim>\<open>if x:\<close> by the
  truthiness of \<^verbatim>\<open>x\<close>.
\<close>

datatype pyval =
    VNone
  | VBool bool
  | VInt int
  | VStr string
  | VList "pyval list"
  | VDict "(string \<times> pyval) list"

fun truthy :: "pyval \<Rightarrow> bool" where
  "truthy VNone = False"
| "truthy (VBool b) = b"
| "truthy (VInt i) = (i \<noteq> 0)"
| "truthy (VStr s) = (s \<noteq> [])"
| "truthy (VList xs) = (xs \<noteq> [])"
| "truthy (VDict kvs) = (kvs \<noteq> [])"

text \<open>The exceptions that the modelled code can raise or let through.\<close>

datatype error =
    KeyError
  | ValueError
  | TypeError
  | SqliteError

subsection \<open>String helpers\<close>

text \<open>\<^verbatim>\<open>sep.join(xs)\<close>.\<close>

fun py_join :: "'a list \<Rightarrow> 'a list list \<Rightarrow> 'a list" where
  "py_join sep [] = []"
| "py_join sep [x] = x"
| "py_join sep (x # y # ys) = x @ sep @ py_join sep (y # ys)"

text \<open>\<^verbatim>\<open>str(n)\<close> of an integer, as an f-string formats it.\<close>

definition digit_char :: "nat \<Rightarrow> char" where
  "digit_char d = ''0123456789'' ! d"

fun str_nat :: "nat \<Rightarrow> string" where
  "str_nat n = (if n < 10 then [digit_char n] else str_nat (n div 10) @ [digit_char (n mod 10)])"

declare str_nat.simps [simp del]

definition str_int :: "int \<Rightarrow> string" where
  "str_int i = (if i < 0 then CHR ''-'' # str_nat (nat (- i)) else str_nat (nat i))"

subsection \<open>Positional binding\<close>

text \<open>
  The statement reaches the store as a text with positional placeholders \<^verbatim>\<open>?\<close> and a
  sequence of bound values: reading the text from the left, each placeholder takes the next
  value (a placeholder beyond the last value stays in the text). The result keeps the
  characters of the text and puts each value where its placeholder was. Every \<^verbatim>\<open>?\<close> of
  the text counts as a placeholder.
\<close>

definition placeholders :: "string \<Rightarrow> nat" where
  "placeholders s = length (filter (\<lambda>c. c = CHR ''?'') s)"

fun bind_params :: "string \<Rightarrow> 'v list \<Rightarrow> (char + 'v) list" where
  "bind_params [] vs = []"
| "bind_params (c # cs) vs =
     (if c = CHR ''?''
      then (case vs of [] \<Rightarrow> Inl c # bind_params cs [] | v # vs' \<Rightarrow> Inr v # bind_params cs vs')
      else Inl c # bind_params cs vs)"

section \<open>QueryBuilder\<close>

record QueryBuilder =
  table :: string
  select_fields :: "string list"
  where_clauses :: "string list"
  where_values :: "pyval list"
  joins :: "string list"
  order_by_clause :: "string option"
  limit_value :: "int option"
  offset_value :: "int option"

text \<open>\<^verbatim>\<open>QueryBuilder.__init__\<close>\<close>

definition QueryBuilder_init :: "string \<Rightarrow> QueryBuilder" where
  "QueryBuilder_init t =
     \<lparr> table = t, select_fields = [''*''], where_clauses = [], where_values = [],
       joins = [], order_by_clause = None, limit_value = None, offset_value = None \<rparr>"

definition select_qb :: "string list \<Rightarrow> QueryBuilder \<Rightarrow> QueryBuilder" where
  "select_qb flds q = q\<lparr>select_fields := flds\<rparr>"

definition where_qb :: "string \<Rightarrow> pyval list \<Rightarrow> QueryBuilder \<Rightarrow> QueryBuilder" where
  "where_qb condition vals q =
     q\<lparr>where_clauses := where_clauses q @ [condition], where_values := where_values q @ vals\<rparr>"

definition join_qb :: "string \<Rightarrow> string \<Rightarrow> QueryBuilder \<Rightarrow> QueryBuilder" where
  "join_qb other_table on q = q\<lparr>joins := joins q @ [''JOIN '' @ other_table @ '' ON '' @ on]\<rparr>"

definition left_join :: "string \<Rightarrow> string \<Rightarrow> QueryBuilder \<Rightarrow> QueryBuilder" where
  "left_join other_table on q =
     q\<lparr>joins := joins q @ [''LEFT JOIN '' @ other_table @ '' ON '' @ on]\<rparr>"

definition order_by :: "string \<Rightarrow> string \<Rightarrow> QueryBuilder \<Rightarrow> QueryBuilder" where
  "order_by fld direction q =
     q\<lparr>order_by_clause := Some (''ORDER BY '' @ fld @ '' '' @ direction)\<rparr>"

definition limit :: "int \<Rightarrow> QueryBuilder \<Rightarrow> QueryBuilder" where
  "limit n q = q\<lparr>limit_value := Some n\<rparr>"

definition offset :: "int \<Rightarrow> QueryBuilder \<Rightarrow> QueryBuilder" where
  "offset n q = q\<lparr>offset_value := Some n\<rparr>"

text \<open>
  The guards of \<^verbatim>\<open>build\<close> are truthiness tests: \<^verbatim>\<open>if self.order_by_clause:\<close>
  holds for a non-empty string, \<^verbatim>\<open>if self.limit_value:\<close> for an integer other than 0;
  \<^verbatim>\<open>None\<close> fails both.
\<close>

definition truthy_str :: "string option \<Rightarrow> bool" where
  "truthy_str x = (case x of None \<Rightarrow> False | Some s \<Rightarrow> s \<noteq> [])"

definition truthy_int :: "int option \<Rightarrow> bool" where
  "truthy_int x = (case x of None \<Rightarrow> False | Some n \<Rightarrow> n \<noteq> 0)"

definition build :: "QueryBuilder \<Rightarrow> string \<times> pyval list" where
  "build q =
     (let sql = ''SELECT '' @ py_join '', '' (select_fields q) @ '' FROM '' @ table q;
          sql = (if joins q \<noteq> [] then sql @ '' '' @ py_join '' '' (joins q) else sql);
          sql = (if where_clauses q \<noteq> [] then sql @ '' WHERE '' @ py_join '' AND '' (where_clauses q)
                 else sql);
          sql = (if truthy_str (order_by_clause q) then sql @ '' '' @ the (order_by_clause q) else sql);
          sql = (if truthy_int (limit_value q) then sql @ '' LIMIT '' @ str_int (the (limit_value q))
                 else sql);
          sql = (if truthy_int (offset_value q) then sql @ '' OFFSET '' @ str_int (the (offset_value q))
                 else sql)
      in (sql, where_values q))"


subsection \<open>Sequences of fluent calls\<close>

text \<open>
  A client drives a builder by a sequence of fluent calls on a fresh
  \<^verbatim>\<open>QueryBuilder(t)\<close>; each call returns the builder itself.
\<close>

datatype qb_call =
    Select "string list"
  | Where string "pyval list"
  | Join string string
  | LeftJoin string string
  | OrderBy string string
  | Limit int
  | Offset int

fun apply_call :: "QueryBuilder \<Rightarrow> qb_call \<Rightarrow> QueryBuilder" where
  "apply_call q (Select flds) = select_qb flds q"
| "apply_call q (Where condition vals) = where_qb condition vals q"
| "apply_call q (Join other_table on) = join_qb other_table on q"
| "apply_call q (LeftJoin other_table on) = left_join other_table on q"
| "apply_call q (OrderBy fld direction) = order_by fld direction q"
| "apply_call q (Limit n) = limit n q"
| "apply_call q (Offset n) = offset n q"

definition run_calls :: "string \<Rightarrow> qb_call list \<Rightarrow> QueryBuilder" where
  "run_calls t calls = foldl apply_call (QueryBuilder_init t) calls"

text \<open>What a call sequence asks for, read off the calls themselves.\<close>

fun values_of :: "qb_call \<Rightarrow> pyval list" where
  "values_of (Where condition vals) = vals"
| "values_of _ = []"

fun predicates_of :: "qb_call \<Rightarrow> string list" where
  "predicates_of (Where condition vals) = [condition]"
| "predicates_of _ = []"

fun joins_of :: "qb_call \<Rightarrow> string list" where
  "joins_of (Join other_table on) = [''JOIN '' @ other_table @ '' ON '' @ on]"
| "joins_of (LeftJoin other_table on) = [''LEFT JOIN '' @ other_table @ '' ON '' @ on]"
| "joins_of _ = []"

fun later_select :: "string list \<Rightarrow> qb_call \<Rightarrow> string list" where
  "later_select prev (Select flds) = flds"
| "later_select prev _ = prev"

fun later_order :: "string option \<Rightarrow> qb_call \<Rightarrow> string option" where
  "later_order prev (OrderBy fld direction) = Some (''ORDER BY '' @ fld @ '' '' @ direction)"
| "later_order prev _ = prev"

fun later_limit :: "int option \<Rightarrow> qb_call \<Rightarrow> int option" where
  "later_limit prev (Limit n) = Some n"
| "later_limit prev _ = prev"

fun later_offset :: "int option \<Rightarrow> qb_call \<Rightarrow> int option" where
  "later_offset prev (Offset n) = Some n"
| "later_offset prev _ = prev"

text \<open>
  The optional clauses of the statement: a keyword followed by the joined parts when there
  are parts; the order-by fragment when one was set; a keyword followed by a number when the
  number was set to something other than 0.
\<close>

definition clause :: "string \<Rightarrow> string \<Rightarrow> string list \<Rightarrow> string" where
  "clause kw sep parts = (if parts = [] then [] else kw @ py_join sep parts)"

definition text_clause :: "string option \<Rightarrow> string" where
  "text_clause x = (case x of None \<Rightarrow> [] | Some s \<Rightarrow> '' '' @ s)"

definition number_clause :: "string \<Rightarrow> int option \<Rightarrow> string" where
  "number_clause kw x = (case x of None \<Rightarrow> [] | Some n \<Rightarrow> if n = 0 then [] else kw @ str_int n)"

text \<open>
  A call is well placed when the text it contributes outside of predicates has no
  placeholder and a \<^verbatim>\<open>where\<close> call passes as many values as its predicate has
  placeholders. The bound predicates of a call sequence are its predicates, each with its
  own values in its placeholders.
\<close>

fun well_placed :: "qb_call \<Rightarrow> bool" where
  "well_placed (Select flds) = list_all (\<lambda>f. placeholders f = 0) flds"
| "well_placed (Where condition vals) = (placeholders condition = length vals)"
| "well_placed (Join other_table on) = (placeholders other_table = 0 \<and> placeholders on = 0)"
| "well_placed (LeftJoin other_table on) = (placeholders other_table = 0 \<and> placeholders on = 0)"
| "well_placed (OrderBy fld direction) = (placeholders fld = 0 \<and> placeholders direction = 0)"
| "well_placed (Limit n) = True"
| "well_placed (Offset n) = True"

fun wheres_of :: "qb_call \<Rightarrow> (string \<times> pyval list) list" where
  "wheres_of (Where condition vals) = [(condition, vals)]"
| "wheres_of _ = []"

fun bound_predicates :: "qb_call \<Rightarrow> (char + pyval) list list" where
  "bound_predicates (Where condition vals) = [bind_params condition vals]"
| "bound_predicates _ = []"

definition bound_clause :: "(char + 'v) list list \<Rightarrow> (char + 'v) list" where
  "bound_clause parts =
     (if parts = [] then [] else map Inl '' WHERE '' @ py_join (map Inl '' AND '') parts)"

section \<open>QueryCache\<close>

text \<open>
  The two dicts of the class are association lists in insertion order, as a Python dict
  iterates: \<^const>\<open>AList.update\<close> overwrites a present key in place and appends an absent
  one, \<^const>\<open>AList.delete\<close> is \<^verbatim>\<open>del d[k]\<close> for a present key. Points in time are
  integers, in microseconds (the resolution of \<^verbatim>\<open>datetime\<close>); \<^verbatim>\<open>ttl\<close> is in seconds.
  The result of each \<^verbatim>\<open>datetime.now()\<close> is an argument of the operation that calls it.
\<close>

record 'v QueryCache =
  cache :: "(string \<times> 'v) list"
  timestamps :: "(string \<times> int) list"
  max_size :: int
  ttl :: int

text \<open>\<^verbatim>\<open>QueryCache.__init__\<close>\<close>

definition QueryCache_init :: "int \<Rightarrow> int \<Rightarrow> 'v QueryCache" where
  "QueryCache_init m t = \<lparr> cache = [], timestamps = [], max_size = m, ttl = t \<rparr>"

text \<open>
  \<^verbatim>\<open>timedelta.seconds\<close> of a difference of \<open>d\<close> microseconds: a \<^verbatim>\<open>timedelta\<close> is
  normalised to days, seconds in \<open>0..86399\<close> and microseconds in \<open>0..999999\<close>, and
  \<^verbatim>\<open>.seconds\<close> reads the middle component only.
\<close>

definition td_seconds :: "int \<Rightarrow> int" where
  "td_seconds d = (d div 1000000) mod 86400"

text \<open>
  \<^verbatim>\<open>QueryCache.get\<close>, called at time \<open>now\<close>. The result is the returned value
  (\<open>None\<close> for Python's \<^verbatim>\<open>None\<close>) with the cache after the call;
  \<^verbatim>\<open>self.timestamps[key]\<close> raises \<^verbatim>\<open>KeyError\<close> on a key the dict lacks.
\<close>

definition get :: "int \<Rightarrow> string \<Rightarrow> 'v QueryCache \<Rightarrow> error + ('v option \<times> 'v QueryCache)" where
  "get now key c =
     (case map_of (cache c) key of
        None \<Rightarrow> Inr (None, c)
      | Some v \<Rightarrow>
          (case map_of (timestamps c) key of
             None \<Rightarrow> Inl KeyError
           | Some ts \<Rightarrow>
               if td_seconds (now - ts) > ttl c
               then Inr (None, c\<lparr>cache := AList.delete key (cache c),
                                  timestamps := AList.delete key (timestamps c)\<rparr>)
               else Inr (Some v, c)))"

text \<open>
  \<^verbatim>\<open>min(self.timestamps, key=self.timestamps.get)\<close>: the keys are visited in dict order and
  a later key replaces the best one only when its timestamp is strictly smaller; on an
  empty dict \<^verbatim>\<open>min\<close> raises \<^verbatim>\<open>ValueError\<close>.
\<close>

definition older :: "'k \<times> int \<Rightarrow> 'k \<times> int \<Rightarrow> 'k \<times> int" where
  "older best x = (if snd x < snd best then x else best)"

definition min_key :: "('k \<times> int) list \<Rightarrow> 'k option" where
  "min_key ts = (case ts of [] \<Rightarrow> None | e # es \<Rightarrow> Some (fst (foldl older e es)))"

text \<open>
  \<^verbatim>\<open>QueryCache.set\<close>, called at time \<open>now\<close>. Both exceptions are raised before the
  first mutation, so an error leaves the cache as it was.
\<close>

definition set_qc :: "int \<Rightarrow> string \<Rightarrow> 'v \<Rightarrow> 'v QueryCache \<Rightarrow> error + 'v QueryCache" where
  "set_qc now key val c =
     (let evicted =
        (if int (length (cache c)) \<ge> max_size c
         then (case min_key (timestamps c) of
                 None \<Rightarrow> Inl ValueError
               | Some oldest_key \<Rightarrow>
                   if map_of (cache c) oldest_key = None then Inl KeyError
                   else Inr (c\<lparr>cache := AList.delete oldest_key (cache c),
                               timestamps := AList.delete oldest_key (timestamps c)\<rparr>))
         else Inr c)
      in case evicted of
           Inl e \<Rightarrow> Inl e
         | Inr c1 \<Rightarrow> Inr (c1\<lparr>cache := AList.update key val (cache c1),
                               timestamps := AList.update key now (timestamps c1)\<rparr>))"

definition clear :: "'v QueryCache \<Rightarrow> 'v QueryCache" where
  "clear c = c\<lparr>cache := [], timestamps := []\<rparr>"

text \<open>
  The representation invariant of the class: both dicts have the same keys, each once.
  \<^verbatim>\<open>__init__\<close> establishes it and \<^verbatim>\<open>get\<close>, \<^verbatim>\<open>set\<close> and \<^verbatim>\<open>clear\<close> keep it.
\<close>

definition cache_inv :: "'v QueryCache \<Rightarrow> bool" where
  "cache_inv c \<longleftrightarrow>
     distinct (map fst (cache c)) \<and> distinct (map fst (timestamps c)) \<and>
     fst ` set (cache c) = fst ` set (timestamps c)"

text \<open>Two caches for concrete runs: one entry inserted at time 0; two entries, full.\<close>

definition cache1 :: "pyval QueryCache" where
  "cache1 = \<lparr> cache = [(''k'', VInt 7)], timestamps = [(''k'', 0)], max_size = 1000, ttl = 3600 \<rparr>"

definition cache2 :: "pyval QueryCache" where
  "cache2 =
     \<lparr> cache = [(''a'', VInt 1), (''b'', VInt 2)], timestamps = [(''a'', 3), (''b'', 3)],
       max_size = 2, ttl = 3600 \<rparr>"

section \<open>ConnectionPool\<close>

text \<open>
  A connection is a handle. Beside the fields of the class, the pool record carries what
  \<^verbatim>\<open>sqlite3\<close> knows about the handles: how many \<^verbatim>\<open>sqlite3.connect\<close> calls were made
  (the next handle is fresh), on which handles \<^verbatim>\<open>close()\<close> was called, and whether the
  \<open>n\<close>-th \<^verbatim>\<open>connect\<close> call succeeds or raises.
\<close>

datatype conn = Conn nat

record ConnectionPool =
  database :: string
  pool_size :: int
  connections :: "conn list"
  opened :: nat
  closed :: "conn list"
  can_open :: "nat \<Rightarrow> bool"

definition sqlite3_connect :: "ConnectionPool \<Rightarrow> (error + conn) \<times> ConnectionPool" where
  "sqlite3_connect p =
     (if can_open p (opened p)
      then (Inr (Conn (opened p)), p\<lparr>opened := Suc (opened p)\<rparr>)
      else (Inl SqliteError, p\<lparr>opened := Suc (opened p)\<rparr>))"

text \<open>\<^verbatim>\<open>_initialize_pool\<close>: the loop over \<^verbatim>\<open>range(self.pool_size)\<close>.\<close>

fun initialize_pool :: "nat \<Rightarrow> ConnectionPool \<Rightarrow> error + ConnectionPool" where
  "initialize_pool 0 p = Inr p"
| "initialize_pool (Suc n) p =
     (case sqlite3_connect p of
        (Inl e, p') \<Rightarrow> Inl e
      | (Inr c, p') \<Rightarrow> initialize_pool n (p'\<lparr>connections := connections p' @ [c]\<rparr>))"

text \<open>\<^verbatim>\<open>ConnectionPool.__init__\<close>; \<^verbatim>\<open>range(n)\<close> is empty for \<open>n \<le> 0\<close>.\<close>

definition ConnectionPool_init :: "(nat \<Rightarrow> bool) \<Rightarrow> string \<Rightarrow> int \<Rightarrow> error + ConnectionPool" where
  "ConnectionPool_init env db n =
     initialize_pool (nat n)
       \<lparr> database = db, pool_size = n, connections = [], opened = 0, closed = [],
         can_open = env \<rparr>"

text \<open>\<^verbatim>\<open>list.pop()\<close> takes the last element, \<^verbatim>\<open>list.append\<close> adds at the end.\<close>

definition get_connection :: "ConnectionPool \<Rightarrow> (error + conn) \<times> ConnectionPool" where
  "get_connection p =
     (if connections p \<noteq> []
      then (Inr (last (connections p)), p\<lparr>connections := butlast (connections p)\<rparr>)
      else sqlite3_connect p)"

definition return_connection :: "conn \<Rightarrow> ConnectionPool \<Rightarrow> ConnectionPool" where
  "return_connection c p =
     (if int (length (connections p)) < pool_size p
      then p\<lparr>connections := connections p @ [c]\<rparr>
      else p\<lparr>closed := closed p @ [c]\<rparr>)"

definition close_all :: "ConnectionPool \<Rightarrow> ConnectionPool" where
  "close_all p = p\<lparr>closed := closed p @ connections p\<rparr>"

text \<open>
  A client's sequence of acquire and release operations; an acquire that raises leaves the
  pool as \<^const>\<open>get_connection\<close> left it and the client goes on.
\<close>

datatype pool_op = Acquire | Release conn

fun pool_step :: "ConnectionPool \<Rightarrow> pool_op \<Rightarrow> ConnectionPool" where
  "pool_step p Acquire = snd (get_connection p)"
| "pool_step p (Release c) = return_connection c p"

text \<open>An acquire followed by the release of the connection it handed out.\<close>

definition acquire_release :: "ConnectionPool \<Rightarrow> ConnectionPool" where
  "acquire_release p =
     (case get_connection p of
        (Inl e, p') \<Rightarrow> p'
      | (Inr c, p') \<Rightarrow> return_connection c p')"

section \<open>Database\<close>

text \<open>
  The backing store is a parameter: a state of type \<open>'s\<close> and the calls of the
  \<^verbatim>\<open>sqlite3\<close> module on it, any of which may raise.
  \<^item> \<open>bk_run conn sql params s\<close> is \<^verbatim>\<open>cursor = conn.cursor(); cursor.execute(sql, params)\<close>:
    an error, or the rows the cursor will yield, with the store after the call;
  \<^item> \<open>bk_commit conn s\<close> is \<^verbatim>\<open>conn.commit()\<close>;
  \<^item> \<open>bk_dict conn row\<close> is \<^verbatim>\<open>dict(row)\<close> on a row of that connection (a connection of
    the initial pool yields \<^verbatim>\<open>sqlite3.Row\<close> objects, one opened later yields tuples);
  \<^item> \<open>bk_repr params\<close> is the text of the parameter tuple in an f-string.
  A row is the list of its columns; its truthiness is that of its length.
\<close>

type_synonym raw_row = "(string \<times> pyval) list"

type_synonym cursor = "raw_row list"

record 's backend =
  bk_run :: "conn \<Rightarrow> string \<Rightarrow> pyval list \<Rightarrow> 's \<Rightarrow> (error + cursor) \<times> 's"
  bk_commit :: "conn \<Rightarrow> 's \<Rightarrow> error option \<times> 's"
  bk_dict :: "conn \<Rightarrow> raw_row \<Rightarrow> error + (string \<times> pyval) list"
  bk_repr :: "pyval list \<Rightarrow> string"

record 's Database =
  db_pool :: ConnectionPool
  db_cache :: "pyval QueryCache"
  db_store :: 's

text \<open>
  \<^verbatim>\<open>Database.__init__\<close>: \<^verbatim>\<open>ConnectionPool(database)\<close> with the default size 5 and
  \<^verbatim>\<open>QueryCache()\<close> with the defaults 1000 and 3600, on a store in state \<open>s\<close>.
\<close>

definition Database_init :: "(nat \<Rightarrow> bool) \<Rightarrow> string \<Rightarrow> 's \<Rightarrow> error + 's Database" where
  "Database_init env db s =
     (case ConnectionPool_init env db 5 of
        Inl e \<Rightarrow> Inl e
      | Inr p \<Rightarrow> Inr \<lparr> db_pool = p, db_cache = QueryCache_init 1000 3600, db_store = s \<rparr>)"

text \<open>
  \<^verbatim>\<open>Database.execute\<close>. The connection is acquired before the \<^verbatim>\<open>try\<close>, so a failing
  \<^verbatim>\<open>connect\<close> propagates at once; the \<^verbatim>\<open>finally\<close> clause returns the connection
  whatever the body did.
\<close>

definition execute ::
  "'s backend \<Rightarrow> string \<Rightarrow> pyval list \<Rightarrow> 's Database \<Rightarrow> (error + cursor) \<times> 's Database" where
  "execute bk sql params db =
     (case get_connection (db_pool db) of
        (Inl e, p) \<Rightarrow> (Inl e, db\<lparr>db_pool := p\<rparr>)
      | (Inr conn, p) \<Rightarrow>
          (let (r, s) =
             (case bk_run bk conn sql params (db_store db) of
                (Inl e, s1) \<Rightarrow> (Inl e, s1)
              | (Inr cursor, s1) \<Rightarrow>
                  (case bk_commit bk conn s1 of
                     (Some e, s2) \<Rightarrow> (Inl e, s2)
                   | (None, s2) \<Rightarrow> (Inr cursor, s2)))
           in (r, db\<lparr>db_pool := return_connection conn p, db_store := s\<rparr>)))"

text \<open>\<^verbatim>\<open>if cached:\<close> on what \<^verbatim>\<open>cache.get\<close> returned.\<close>

definition truthy_opt :: "pyval option \<Rightarrow> bool" where
  "truthy_opt x = (case x of None \<Rightarrow> False | Some v \<Rightarrow> truthy v)"

text \<open>
  \<^verbatim>\<open>row = cursor.fetchone(); result = dict(row) if row else None\<close> and
  \<^verbatim>\<open>rows = cursor.fetchall(); results = [dict(row) for row in rows]\<close>.
\<close>

definition one_result :: "'s backend \<Rightarrow> conn \<Rightarrow> cursor \<Rightarrow> error + pyval" where
  "one_result bk conn cur =
     (case cur of
        [] \<Rightarrow> Inr VNone
      | row # _ \<Rightarrow>
          if row \<noteq> []
          then (case bk_dict bk conn row of Inl e \<Rightarrow> Inl e | Inr d \<Rightarrow> Inr (VDict d))
          else Inr VNone)"

fun dict_rows :: "'s backend \<Rightarrow> conn \<Rightarrow> cursor \<Rightarrow> error + pyval list" where
  "dict_rows bk conn [] = Inr []"
| "dict_rows bk conn (row # rows) =
     (case bk_dict bk conn row of
        Inl e \<Rightarrow> Inl e
      | Inr d \<Rightarrow>
          (case dict_rows bk conn rows of
             Inl e \<Rightarrow> Inl e
           | Inr ds \<Rightarrow> Inr (VDict d # ds)))"

definition all_results :: "'s backend \<Rightarrow> conn \<Rightarrow> cursor \<Rightarrow> error + pyval" where
  "all_results bk conn cur =
     (case dict_rows bk conn cur of Inl e \<Rightarrow> Inl e | Inr ds \<Rightarrow> Inr (VList ds))"

text \<open>
  \<^verbatim>\<open>Database.fetch_one\<close>; \<open>t_get\<close> and \<open>t_set\<close> are the times of the
  \<^verbatim>\<open>datetime.now()\<close> calls inside \<^verbatim>\<open>cache.get\<close> and \<^verbatim>\<open>cache.set\<close>.
\<close>

definition fetch_one ::
  "'s backend \<Rightarrow> int \<Rightarrow> int \<Rightarrow> string \<Rightarrow> pyval list \<Rightarrow> 's Database \<Rightarrow> (error + pyval) \<times> 's Database"
  where
  "fetch_one bk t_get t_set sql params db =
     (let cache_key = sql @ '':'' @ bk_repr bk params in
      case get t_get cache_key (db_cache db) of
        Inl e \<Rightarrow> (Inl e, db)
      | Inr (cached, c1) \<Rightarrow>
          if truthy_opt cached then (Inr (the cached), db\<lparr>db_cache := c1\<rparr>)
          else
            (case get_connection (db_pool db) of
               (Inl e, p) \<Rightarrow> (Inl e, db\<lparr>db_pool := p, db_cache := c1\<rparr>)
             | (Inr conn, p) \<Rightarrow>
                 (let (r, c2, s) =
                    (case bk_run bk conn sql params (db_store db) of
                       (Inl e, s1) \<Rightarrow> (Inl e, c1, s1)
                     | (Inr cur, s1) \<Rightarrow>
                         (case one_result bk conn cur of
                            Inl e \<Rightarrow> (Inl e, c1, s1)
                          | Inr result \<Rightarrow>
                              if truthy result
                              then (case set_qc t_set cache_key result c1 of
                                      Inl e \<Rightarrow> (Inl e, c1, s1)
                                    | Inr c2 \<Rightarrow> (Inr result, c2, s1))
                              else (Inr result, c1, s1)))
                  in (r, \<lparr>db_pool = return_connection conn p, db_cache = c2, db_store = s\<rparr>))))"

text \<open>\<^verbatim>\<open>Database.fetch_all\<close>\<close>

definition fetch_all ::
  "'s backend \<Rightarrow> int \<Rightarrow> int \<Rightarrow> string \<Rightarrow> pyval list \<Rightarrow> 's Database \<Rightarrow> (error + pyval) \<times> 's Database"
  where
  "fetch_all bk t_get t_set sql params db =
     (let cache_key = sql @ '':'' @ bk_repr bk params in
      case get t_get cache_key (db_cache db) of
        Inl e \<Rightarrow> (Inl e, db)
      | Inr (cached, c1) \<Rightarrow>
          if truthy_opt cached then (Inr (the cached), db\<lparr>db_cache := c1\<rparr>)
          else
            (case get_connection (db_pool db) of
               (Inl e, p) \<Rightarrow> (Inl e, db\<lparr>db_pool := p, db_cache := c1\<rparr>)
             | (Inr conn, p) \<Rightarrow>
                 (let (r, c2, s) =
                    (case bk_run bk conn sql params (db_store db) of
                       (Inl e, s1) \<Rightarrow> (Inl e, c1, s1)
                     | (Inr cur, s1) \<Rightarrow>
                         (case all_results bk conn cur of
                            Inl e \<Rightarrow> (Inl e, c1, s1)
                          | Inr results \<Rightarrow>
                              if truthy results
                              then (case set_qc t_set cache_key results c1 of
                                      Inl e \<Rightarrow> (Inl e, c1, s1)
                                    | Inr c2 \<Rightarrow> (Inr results, c2, s1))
                              else (Inr results, c1, s1)))
                  in (r, \<lparr>db_pool = return_connection conn p, db_cache = c2, db_store = s\<rparr>))))"

text \<open>
  \<^verbatim>\<open>Database.create_table\<close>. A column's \<^verbatim>\<open>default\<close> is \<open>None\<close> or the text that the
  f-string gives a default other than \<^verbatim>\<open>None\<close>.
\<close>

record Column =
  name :: string
  type :: string
  primary_key :: bool
  unique :: bool
  nullable :: bool
  default_text :: "string option"

definition col_def :: "Column \<Rightarrow> string" where
  "col_def col =
     (let d = name col @ '' '' @ type col;
          d = (if primary_key col then d @ '' PRIMARY KEY AUTOINCREMENT'' else d);
          d = (if \<not> nullable col then d @ '' NOT NULL'' else d);
          d = (if unique col then d @ '' UNIQUE'' else d);
          d = (case default_text col of None \<Rightarrow> d | Some t \<Rightarrow> d @ '' DEFAULT '' @ t)
      in d)"

definition create_table ::
  "'s backend \<Rightarrow> string \<Rightarrow> Column list \<Rightarrow> 's Database \<Rightarrow> (error + unit) \<times> 's Database" where
  "create_table bk table_name columns db =
     (let sql = ''CREATE TABLE IF NOT EXISTS '' @ table_name @ '' ('' @
                py_join '', '' (map col_def columns) @ '')''
      in case execute bk sql [] db of
           (Inl e, db') \<Rightarrow> (Inl e, db')
         | (Inr cur, db') \<Rightarrow> (Inr (), db'\<lparr>db_cache := clear (db_cache db')\<rparr>))"

section \<open>Model\<close>

text \<open>
  An instance is its \<^verbatim>\<open>__dict__\<close> (the keyword arguments of \<^verbatim>\<open>__init__\<close>, in
  order), the \<^verbatim>\<open>__tablename__\<close> of its class and the other data attributes its class
  defines: \<^verbatim>\<open>hasattr\<close> and \<^verbatim>\<open>self.id\<close> look in the instance first and in the class
  next. The class is bound to a database (\<^verbatim>\<open>set_database\<close>), which the operations take
  and return.
\<close>

record Model =
  tablename :: string
  inst_dict :: "(string \<times> pyval) list"
  class_attrs :: "(string \<times> pyval) list"

definition py_getattr :: "Model \<Rightarrow> string \<Rightarrow> pyval option" where
  "py_getattr m attr =
     (case map_of (inst_dict m) attr of Some v \<Rightarrow> Some v | None \<Rightarrow> map_of (class_attrs m) attr)"

text \<open>\<^verbatim>\<open>k.startswith('_')\<close>\<close>

definition startswith_underscore :: "string \<Rightarrow> bool" where
  "startswith_underscore k = (case k of [] \<Rightarrow> False | ch # _ \<Rightarrow> ch = CHR ''_'')"

text \<open>\<^verbatim>\<open>{k: v for k, v in self.__dict__.items() if not k.startswith('_')}\<close>\<close>

definition to_dict :: "Model \<Rightarrow> (string \<times> pyval) list" where
  "to_dict m = filter (\<lambda>kv. \<not> startswith_underscore (fst kv)) (inst_dict m)"

text \<open>\<^verbatim>\<open>hasattr(self, 'id') and self.id\<close>\<close>

definition has_truthy_id :: "Model \<Rightarrow> bool" where
  "has_truthy_id m = (case py_getattr m ''id'' of None \<Rightarrow> False | Some v \<Rightarrow> truthy v)"

text \<open>The statement and the bound values that \<^verbatim>\<open>save\<close> hands to \<^verbatim>\<open>execute\<close>.\<close>

definition save_statement :: "Model \<Rightarrow> string \<times> pyval list" where
  "save_statement m =
     (let attrs = to_dict m in
      if has_truthy_id m
      then
        (let set_clause =
               py_join '', '' (map (\<lambda>k. k @ '' = ?'') (filter (\<lambda>k. k \<noteq> ''id'') (map fst attrs)));
             vals = map snd (filter (\<lambda>kv. fst kv \<noteq> ''id'') attrs) @ [the (py_getattr m ''id'')]
         in (''UPDATE '' @ tablename m @ '' SET '' @ set_clause @ '' WHERE id = ?'', vals))
      else
        (let columns = py_join '', '' (map fst attrs);
             placeholders = py_join '', '' (map (\<lambda>_. ''?'') attrs);
             vals = map snd attrs
         in (''INSERT INTO '' @ tablename m @ '' ('' @ columns @ '') VALUES ('' @ placeholders @ '')'',
             vals)))"

text \<open>\<^verbatim>\<open>Model.save\<close>: an exception of \<^verbatim>\<open>execute\<close> propagates before the cache is cleared.\<close>

definition save :: "'s backend \<Rightarrow> Model \<Rightarrow> 's Database \<Rightarrow> (error + bool) \<times> 's Database" where
  "save bk m db =
     (let (sql, vals) = save_statement m in
      case execute bk sql vals db of
        (Inl e, db') \<Rightarrow> (Inl e, db')
      | (Inr cur, db') \<Rightarrow> (Inr True, db'\<lparr>db_cache := clear (db_cache db')\<rparr>))"

text \<open>\<^verbatim>\<open>Model.delete\<close>\<close>

definition delete :: "'s backend \<Rightarrow> Model \<Rightarrow> 's Database \<Rightarrow> (error + bool) \<times> 's Database" where
  "delete bk m db =
     (case py_getattr m ''id'' of
        None \<Rightarrow> (Inr False, db)
      | Some idv \<Rightarrow>
          (case execute bk (''DELETE FROM '' @ tablename m @ '' WHERE id = ?'') [idv] db of
             (Inl e, db') \<Rightarrow> (Inl e, db')
           | (Inr cur, db') \<Rightarrow> (Inr True, db'\<lparr>db_cache := clear (db_cache db')\<rparr>)))"

section \<open>A store for concrete runs\<close>

text \<open>
  A store that records the statements run on it, for evaluating the operations on concrete
  inputs: every statement succeeds and yields the rows given, a commit moves the pending
  statements to the committed ones.
\<close>

record journal =
  pending :: "(string \<times> pyval list) list"
  committed :: "(string \<times> pyval list) list"

definition journal_backend :: "cursor \<Rightarrow> journal backend" where
  "journal_backend rows =
     \<lparr> bk_run = (\<lambda>conn sql params s. (Inr rows, s\<lparr>pending := pending s @ [(sql, params)]\<rparr>)),
       bk_commit = (\<lambda>conn s. (None, \<lparr>pending = [], committed = committed s @ pending s\<rparr>)),
       bk_dict = (\<lambda>conn row. Inr row),
       bk_repr = (\<lambda>params. ''()'') \<rparr>"

text \<open>A store on which every statement raises.\<close>

definition failing_backend :: "journal backend" where
  "failing_backend =
     \<lparr> bk_run = (\<lambda>conn sql params s. (Inl SqliteError, s)),
       bk_commit = (\<lambda>conn s. (None, s)),
       bk_dict = (\<lambda>conn row. Inr row),
       bk_repr = (\<lambda>params. ''()'') \<rparr>"

text \<open>
  A database with one idle connection and one cached result, and two instances of a model
  on table \<^verbatim>\<open>users\<close>: a new one, one that carries the id 7 and one that carries
  the id 0.
\<close>

definition db0 :: "journal Database" where
  "db0 =
     \<lparr> db_pool = \<lparr> database = ''app.db'', pool_size = 1, connections = [Conn 0], opened = 1,
                   closed = [], can_open = (\<lambda>_. True) \<rparr>,
       db_cache = \<lparr> cache = [(''SELECT * FROM users:()'', VList [VDict [(''id'', VInt 7)]])],
                    timestamps = [(''SELECT * FROM users:()'', 0)], max_size = 1000, ttl = 3600 \<rparr>,
       db_store = \<lparr> pending = [], committed = [] \<rparr> \<rparr>"

definition new_user :: Model where
  "new_user = \<lparr> tablename = ''users'', inst_dict = [(''name'', VStr ''A'')], class_attrs = [] \<rparr>"

definition user7 :: Model where
  "user7 =
     \<lparr> tablename = ''users'', inst_dict = [(''id'', VInt 7), (''name'', VStr ''A'')],
       class_attrs = [] \<rparr>"

definition user0 :: Model where
  "user0 =
     \<lparr> tablename = ''users'', inst_dict = [(''id'', VInt 0), (''name'', VStr ''A'')],
       class_attrs = [] \<rparr>"

text \<open>Two instances that also carry an underscore attribute.\<close>

definition secret_user :: Model where
  "secret_user =
     \<lparr> tablename = ''users'', inst_dict = [(''name'', VStr ''A''), (''_secret'', VInt 1)],
       class_attrs = [] \<rparr>"

definition secret_user7 :: Model where
  "secret_user7 =
     \<lparr> tablename = ''users'',
       inst_dict = [(''id'', VInt 7), (''_secret'', VInt 1), (''name'', VStr ''A'')],
       class_attrs = [] \<rparr>"

section \<open>Properties of QueryBuilder\<close>

lemmas qb_defs =
  select_qb_def where_qb_def join_qb_def left_join_def order_by_def limit_def offset_def

lemma apply_call_table: "table (apply_call q c) = table q"
  by (cases c) (simp_all add: qb_defs)

lemma apply_call_select: "select_fields (apply_call q c) = later_select (select_fields q) c"
  by (cases c) (simp_all add: qb_defs)

lemma apply_call_where_clauses: "where_clauses (apply_call q c) = where_clauses q @ predicates_of c"
  by (cases c) (simp_all add: qb_defs)

lemma apply_call_where_values: "where_values (apply_call q c) = where_values q @ values_of c"
  by (cases c) (simp_all add: qb_defs)

lemma apply_call_joins: "joins (apply_call q c) = joins q @ joins_of c"
  by (cases c) (simp_all add: qb_defs)

lemma apply_call_order: "order_by_clause (apply_call q c) = later_order (order_by_clause q) c"
  by (cases c) (simp_all add: qb_defs)

lemma apply_call_limit: "limit_value (apply_call q c) = later_limit (limit_value q) c"
  by (cases c) (simp_all add: qb_defs)

lemma apply_call_offset: "offset_value (apply_call q c) = later_offset (offset_value q) c"
  by (cases c) (simp_all add: qb_defs)

lemma calls_table: "table (foldl apply_call q calls) = table q"
  by (induction calls arbitrary: q) (simp_all add: apply_call_table)

lemma calls_select:
  "select_fields (foldl apply_call q calls) = foldl later_select (select_fields q) calls"
  by (induction calls arbitrary: q) (simp_all add: apply_call_select)

lemma calls_where_clauses:
  "where_clauses (foldl apply_call q calls) = where_clauses q @ concat (map predicates_of calls)"
  by (induction calls arbitrary: q) (simp_all add: apply_call_where_clauses)

lemma calls_where_values:
  "where_values (foldl apply_call q calls) = where_values q @ concat (map values_of calls)"
  by (induction calls arbitrary: q) (simp_all add: apply_call_where_values)

lemma calls_joins: "joins (foldl apply_call q calls) = joins q @ concat (map joins_of calls)"
  by (induction calls arbitrary: q) (simp_all add: apply_call_joins)

lemma calls_order:
  "order_by_clause (foldl apply_call q calls) = foldl later_order (order_by_clause q) calls"
  by (induction calls arbitrary: q) (simp_all add: apply_call_order)

lemma calls_limit:
  "limit_value (foldl apply_call q calls) = foldl later_limit (limit_value q) calls"
  by (induction calls arbitrary: q) (simp_all add: apply_call_limit)

lemma calls_offset:
  "offset_value (foldl apply_call q calls) = foldl later_offset (offset_value q) calls"
  by (induction calls arbitrary: q) (simp_all add: apply_call_offset)

lemma later_order_nonempty: "foldl later_order None calls = Some s \<Longrightarrow> s \<noteq> []"
proof (induction calls rule: rev_induct)
  case Nil
  then show ?case by simp
next
  case (snoc c calls)
  then show ?case by (cases c) auto
qed

lemma build_run_calls:
  "build (run_calls t calls) =
     (''SELECT '' @ py_join '', '' (foldl later_select [''*''] calls) @ '' FROM '' @ t
        @ clause '' '' '' '' (concat (map joins_of calls))
        @ clause '' WHERE '' '' AND '' (concat (map predicates_of calls))
        @ text_clause (foldl later_order None calls)
        @ number_clause '' LIMIT '' (foldl later_limit None calls)
        @ number_clause '' OFFSET '' (foldl later_offset None calls),
      concat (map values_of calls))"
proof -
  let ?q = "run_calls t calls"
  have f: "table ?q = t" "select_fields ?q = foldl later_select [''*''] calls"
    "joins ?q = concat (map joins_of calls)"
    "where_clauses ?q = concat (map predicates_of calls)"
    "where_values ?q = concat (map values_of calls)"
    "order_by_clause ?q = foldl later_order None calls"
    "limit_value ?q = foldl later_limit None calls"
    "offset_value ?q = foldl later_offset None calls"
    by (simp_all add: run_calls_def calls_table calls_select calls_joins calls_where_clauses
        calls_where_values calls_order calls_limit calls_offset QueryBuilder_init_def)
  show ?thesis
    unfolding build_def Let_def f
    by (auto simp: clause_def number_clause_def text_clause_def truthy_int_def truthy_str_def
        split: option.splits dest: later_order_nonempty)
qed

subsection \<open>Positional binding of the built statement\<close>

lemma placeholders_simps [simp]:
  "placeholders [] = 0"
  "placeholders (c # cs) = (if c = CHR ''?'' then Suc (placeholders cs) else placeholders cs)"
  "placeholders (a @ b) = placeholders a + placeholders b"
  by (simp_all add: placeholders_def)

lemma bind_params_append:
  "bind_params (a @ b) vs = bind_params a vs @ bind_params b (drop (placeholders a) vs)"
  by (induction a arbitrary: vs) (auto split: list.splits)

lemma bind_params_plain: "placeholders a = 0 \<Longrightarrow> bind_params a vs = map Inl a"
  by (induction a) (auto split: if_splits)

lemma bind_params_enough:
  "placeholders a \<le> length vs \<Longrightarrow> bind_params a (vs @ ws) = bind_params a vs"
proof (induction a arbitrary: vs)
  case Nil
  then show ?case by simp
next
  case (Cons c cs)
  show ?case
  proof (cases "c = CHR ''?''")
    case True
    with Cons.prems obtain v vs' where v: "vs = v # vs'" by (cases vs) auto
    with Cons.prems True have "placeholders cs \<le> length vs'" by simp
    from Cons.IH [OF this] True v show ?thesis by simp
  next
    case False
    with Cons.prems have "placeholders cs \<le> length vs" by simp
    from Cons.IH [OF this] False show ?thesis by simp
  qed
qed

lemma placeholders_py_join_plain:
  "placeholders sep = 0 \<Longrightarrow> list_all (\<lambda>x. placeholders x = 0) xs \<Longrightarrow>
   placeholders (py_join sep xs) = 0"
  by (induction sep xs rule: py_join.induct) auto

lemma digit_char_plain: "d < 10 \<Longrightarrow> digit_char d \<noteq> CHR ''?''"
proof -
  assume "d < 10"
  then have "digit_char d \<in> set ''0123456789''"
    unfolding digit_char_def by (intro nth_mem) simp
  then show ?thesis by auto
qed

lemma placeholders_str_nat: "placeholders (str_nat n) = 0"
proof (induction n rule: str_nat.induct)
  case (1 n)
  show ?case
  proof (cases "n < 10")
    case True
    then show ?thesis by (subst str_nat.simps) (simp add: digit_char_plain)
  next
    case False
    then have "n mod 10 < 10" by simp
    with 1 False show ?thesis by (subst str_nat.simps) (simp add: digit_char_plain)
  qed
qed

lemma placeholders_str_int: "placeholders (str_int i) = 0"
  by (simp add: str_int_def placeholders_str_nat)

lemma bind_params_joined:
  assumes "placeholders sep = 0"
  shows "list_all (\<lambda>p. placeholders (fst p) = length (snd p)) ps \<Longrightarrow>
    placeholders (py_join sep (map fst ps)) = length (concat (map snd ps)) \<and>
    bind_params (py_join sep (map fst ps)) (concat (map snd ps)) =
      py_join (map Inl sep) (map (\<lambda>p. bind_params (fst p) (snd p)) ps)"
proof (induction ps rule: induct_list012)
  case 1
  then show ?case by simp
next
  case (2 p)
  then show ?case by simp
next
  case (3 p q ps)
  then have p: "placeholders (fst p) = length (snd p)"
    and r: "list_all (\<lambda>p. placeholders (fst p) = length (snd p)) (q # ps)" by simp_all
  from 3(2) [OF r] assms p show ?case
    by (simp add: bind_params_append bind_params_enough bind_params_plain)
qed


lemma bind_params_after_plain:
  "placeholders a = 0 \<Longrightarrow> bind_params (a @ b) vs = map Inl a @ bind_params b vs"
  by (simp add: bind_params_append bind_params_plain)

lemma bind_params_sandwich:
  "placeholders a = 0 \<Longrightarrow> placeholders z = 0 \<Longrightarrow> placeholders w = length vs \<Longrightarrow>
   bind_params (a @ w @ z) vs = map Inl a @ bind_params w vs @ map Inl z"
  by (simp add: bind_params_append bind_params_plain)

lemma wheres_of_parts:
  "predicates_of c = map fst (wheres_of c)"
  "values_of c = concat (map snd (wheres_of c))"
  "bound_predicates c = map (\<lambda>p. bind_params (fst p) (snd p)) (wheres_of c)"
  by (cases c; simp)+

lemma wheres_of_calls:
  "concat (map predicates_of calls) = map fst (concat (map wheres_of calls))"
  "concat (map values_of calls) = concat (map snd (concat (map wheres_of calls)))"
  "concat (map bound_predicates calls) =
     map (\<lambda>p. bind_params (fst p) (snd p)) (concat (map wheres_of calls))"
  by (induction calls) (simp_all add: wheres_of_parts)

lemma well_placed_wheres:
  "list_all well_placed calls \<Longrightarrow>
   list_all (\<lambda>p. placeholders (fst p) = length (snd p)) (concat (map wheres_of calls))"
proof (induction calls)
  case Nil
  then show ?case by simp
next
  case (Cons c calls)
  then show ?case by (cases c) simp_all
qed

lemma well_placed_joins:
  "list_all well_placed calls \<Longrightarrow>
   list_all (\<lambda>x. placeholders x = 0) (concat (map joins_of calls))"
proof (induction calls)
  case Nil
  then show ?case by simp
next
  case (Cons c calls)
  then show ?case by (cases c) simp_all
qed

lemma well_placed_select:
  "list_all well_placed calls \<Longrightarrow> list_all (\<lambda>x. placeholders x = 0) init \<Longrightarrow>
   list_all (\<lambda>x. placeholders x = 0) (foldl later_select init calls)"
proof (induction calls arbitrary: init)
  case Nil
  then show ?case by simp
next
  case (Cons c calls)
  then show ?case by (cases c) simp_all
qed

lemma well_placed_order:
  "list_all well_placed calls \<Longrightarrow> placeholders (text_clause prev) = 0 \<Longrightarrow>
   placeholders (text_clause (foldl later_order prev calls)) = 0"
proof (induction calls arbitrary: prev)
  case Nil
  then show ?case by simp
next
  case (Cons c calls)
  then show ?case by (cases c) (simp_all add: text_clause_def)
qed

lemma placeholders_number_clause:
  "placeholders kw = 0 \<Longrightarrow> placeholders (number_clause kw x) = 0"
  by (simp add: number_clause_def placeholders_str_int split: option.splits)

lemma placeholders_clause_plain:
  "placeholders kw = 0 \<Longrightarrow> placeholders sep = 0 \<Longrightarrow> list_all (\<lambda>x. placeholders x = 0) parts \<Longrightarrow>
   placeholders (clause kw sep parts) = 0"
  by (simp add: clause_def placeholders_py_join_plain)

lemma bind_where_clause:
  assumes "list_all (\<lambda>p. placeholders (fst p) = length (snd p)) ps"
  shows "placeholders (clause '' WHERE '' '' AND '' (map fst ps)) = length (concat (map snd ps)) \<and>
    bind_params (clause '' WHERE '' '' AND '' (map fst ps)) (concat (map snd ps)) =
      bound_clause (map (\<lambda>p. bind_params (fst p) (snd p)) ps)"
proof (cases "ps = []")
  case True
  then show ?thesis by (simp add: clause_def bound_clause_def)
next
  case False
  have s: "placeholders '' AND '' = 0" by simp
  from bind_params_joined [OF s assms] False show ?thesis
    by (simp add: clause_def bound_clause_def bind_params_append)
qed

lemma build_binding:
  assumes "placeholders t = 0" and "list_all well_placed calls"
  shows "bind_params (fst (build (run_calls t calls))) (snd (build (run_calls t calls))) =
     map Inl (''SELECT '' @ py_join '', '' (foldl later_select [''*''] calls) @ '' FROM '' @ t
              @ clause '' '' '' '' (concat (map joins_of calls)))
     @ bound_clause (concat (map bound_predicates calls))
     @ map Inl (text_clause (foldl later_order None calls)
              @ number_clause '' LIMIT '' (foldl later_limit None calls)
              @ number_clause '' OFFSET '' (foldl later_offset None calls))"
proof -
  let ?A = "''SELECT '' @ py_join '', '' (foldl later_select [''*''] calls) @ '' FROM '' @ t
              @ clause '' '' '' '' (concat (map joins_of calls))"
  let ?ps = "concat (map wheres_of calls)"
  let ?W = "clause '' WHERE '' '' AND '' (map fst ?ps)"
  let ?Z = "text_clause (foldl later_order None calls)
              @ number_clause '' LIMIT '' (foldl later_limit None calls)
              @ number_clause '' OFFSET '' (foldl later_offset None calls)"
  have f: "list_all (\<lambda>x. placeholders x = 0) (foldl later_select [''*''] calls)"
    using assms(2) by (rule well_placed_select) simp
  have a: "placeholders ?A = 0"
    using assms(1) f well_placed_joins [OF assms(2)]
    by (simp add: placeholders_py_join_plain placeholders_clause_plain)
  have z: "placeholders ?Z = 0"
    using well_placed_order [OF assms(2), of None]
    by (simp add: placeholders_number_clause text_clause_def)
  from bind_where_clause [OF well_placed_wheres [OF assms(2)]]
  have w: "placeholders ?W = length (concat (map snd ?ps))"
    and b: "bind_params ?W (concat (map snd ?ps)) =
      bound_clause (map (\<lambda>p. bind_params (fst p) (snd p)) ?ps)"
    by simp_all
  have "build (run_calls t calls) = (?A @ ?W @ ?Z, concat (map snd ?ps))"
    by (simp add: build_run_calls wheres_of_calls)
  then have "bind_params (fst (build (run_calls t calls))) (snd (build (run_calls t calls))) =
     bind_params (?A @ ?W @ ?Z) (concat (map snd ?ps))"
    by simp
  also have "\<dots> = map Inl ?A @ bind_params ?W (concat (map snd ?ps)) @ map Inl ?Z"
    using a z w by (rule bind_params_sandwich)
  finally show ?thesis
    by (simp only: b wheres_of_calls)
qed


text \<open>
  C3. For every sequence of fluent calls on a fresh builder for table \<open>t\<close>,
  \<^verbatim>\<open>build()\<close> returns the text
  \<^verbatim>\<open>SELECT <fields> FROM <table> [<joins>] [WHERE <predicates>] [ORDER BY ...] [LIMIT n] [OFFSET n]\<close>:
  the fields of the last \<^verbatim>\<open>select\<close> (\<^verbatim>\<open>*\<close> without one) joined by commas, the join
  fragments in call order, the predicates of the \<^verbatim>\<open>where\<close> calls in call order joined by
  \<^verbatim>\<open>AND\<close>, the last \<^verbatim>\<open>order_by\<close>, and the last limit and offset when they are not 0;
  the bound values are the concatenation, in call order, of the values of the
  \<^verbatim>\<open>where\<close> calls. The values match the placeholders from left to right: when every
  call is well placed, binding the returned values to the placeholders of the returned
  text puts into each predicate exactly the values of its own \<^verbatim>\<open>where\<close> call. In
  particular \<^verbatim>\<open>where("a = ?", 1)\<close>, \<^verbatim>\<open>where("b = ?", 2)\<close>, \<^verbatim>\<open>limit(5)\<close> on table
  \<^verbatim>\<open>t\<close> builds \<^verbatim>\<open>SELECT * FROM t WHERE a = ? AND b = ? LIMIT 5\<close> with the bound values
  \<open>(1, 2)\<close>.
\<close>

theorem build_form_and_values:
  "build (run_calls t calls) =
     (''SELECT '' @ py_join '', '' (foldl later_select [''*''] calls) @ '' FROM '' @ t
        @ clause '' '' '' '' (concat (map joins_of calls))
        @ clause '' WHERE '' '' AND '' (concat (map predicates_of calls))
        @ text_clause (foldl later_order None calls)
        @ number_clause '' LIMIT '' (foldl later_limit None calls)
        @ number_clause '' OFFSET '' (foldl later_offset None calls),
      concat (map values_of calls)) \<and>
   (placeholders t = 0 \<and> list_all well_placed calls \<longrightarrow>
      bind_params (fst (build (run_calls t calls))) (snd (build (run_calls t calls))) =
        map Inl (''SELECT '' @ py_join '', '' (foldl later_select [''*''] calls) @ '' FROM '' @ t
                 @ clause '' '' '' '' (concat (map joins_of calls)))
        @ bound_clause (concat (map bound_predicates calls))
        @ map Inl (text_clause (foldl later_order None calls)
                 @ number_clause '' LIMIT '' (foldl later_limit None calls)
                 @ number_clause '' OFFSET '' (foldl later_offset None calls))) \<and>
   build (run_calls ''t'' [Where ''a = ?'' [VInt 1], Where ''b = ?'' [VInt 2], Limit 5]) =
     (''SELECT * FROM t WHERE a = ? AND b = ? LIMIT 5'', [VInt 1, VInt 2])"
proof (intro conjI impI)
  show "build (run_calls t calls) =
     (''SELECT '' @ py_join '', '' (foldl later_select [''*''] calls) @ '' FROM '' @ t
        @ clause '' '' '' '' (concat (map joins_of calls))
        @ clause '' WHERE '' '' AND '' (concat (map predicates_of calls))
        @ text_clause (foldl later_order None calls)
        @ number_clause '' LIMIT '' (foldl later_limit None calls)
        @ number_clause '' OFFSET '' (foldl later_offset None calls),
      concat (map values_of calls))"
    by (rule build_run_calls)
  show "build (run_calls ''t'' [Where ''a = ?'' [VInt 1], Where ''b = ?'' [VInt 2], Limit 5]) =
     (''SELECT * FROM t WHERE a = ? AND b = ? LIMIT 5'', [VInt 1, VInt 2])"
    by (simp add: build_run_calls clause_def text_clause_def number_clause_def str_int_def
        str_nat.simps digit_char_def)
next
  assume "placeholders t = 0 \<and> list_all well_placed calls"
  then have "placeholders t = 0" and "list_all well_placed calls" by simp_all
  then show "bind_params (fst (build (run_calls t calls))) (snd (build (run_calls t calls))) =
        map Inl (''SELECT '' @ py_join '', '' (foldl later_select [''*''] calls) @ '' FROM '' @ t
                 @ clause '' '' '' '' (concat (map joins_of calls)))
        @ bound_clause (concat (map bound_predicates calls))
        @ map Inl (text_clause (foldl later_order None calls)
                 @ number_clause '' LIMIT '' (foldl later_limit None calls)
                 @ number_clause '' OFFSET '' (foldl later_offset None calls))"
    by (rule build_binding)
qed

theorem build_form_and_values_witness:
  "placeholders ''t'' = 0 \<and>
   list_all well_placed [Where ''a = ?'' [VInt 1], Where ''b = ?'' [VInt 2], Limit 5] \<and>
   bind_params
     (fst (build (run_calls ''t'' [Where ''a = ?'' [VInt 1], Where ''b = ?'' [VInt 2], Limit 5])))
     (snd (build (run_calls ''t'' [Where ''a = ?'' [VInt 1], Where ''b = ?'' [VInt 2], Limit 5]))) =
     map Inl ''SELECT * FROM t WHERE a = '' @ Inr (VInt 1) #
     map Inl '' AND b = '' @ Inr (VInt 2) # map Inl '' LIMIT 5''"
proof -
  have h: "placeholders ''t'' = 0 \<and>
      list_all well_placed [Where ''a = ?'' [VInt 1], Where ''b = ?'' [VInt 2], Limit 5]"
    by simp
  from build_form_and_values [THEN conjunct2, THEN conjunct1, rule_format, OF h]
  have "bind_params
     (fst (build (run_calls ''t'' [Where ''a = ?'' [VInt 1], Where ''b = ?'' [VInt 2], Limit 5])))
     (snd (build (run_calls ''t'' [Where ''a = ?'' [VInt 1], Where ''b = ?'' [VInt 2], Limit 5]))) =
     map Inl ''SELECT * FROM t WHERE a = '' @ Inr (VInt 1) #
     map Inl '' AND b = '' @ Inr (VInt 2) # map Inl '' LIMIT 5''"
    by (simp add: clause_def text_clause_def number_clause_def bound_clause_def str_int_def
        str_nat.simps digit_char_def)
  with h show ?thesis by (intro conjI) simp_all
qed

text \<open>
  C2. The claim: \<^verbatim>\<open>limit(0)\<close> and \<^verbatim>\<open>offset(0)\<close> appear verbatim in the built
  statement. The guards \<^verbatim>\<open>if self.limit_value:\<close> and \<^verbatim>\<open>if self.offset_value:\<close>
  test truthiness, and 0 is falsy: on a fresh builder for table \<^verbatim>\<open>t\<close>, after
  \<^verbatim>\<open>limit(0)\<close> and \<^verbatim>\<open>offset(0)\<close>, \<^verbatim>\<open>build()\<close> returns the bare
  \<^verbatim>\<open>SELECT * FROM t\<close>, with neither clause.
\<close>

theorem build_drops_limit_offset_zero:
  "build (limit 0 (QueryBuilder_init ''t'')) = (''SELECT * FROM t'', []) \<and>
   build (offset 0 (QueryBuilder_init ''t'')) = (''SELECT * FROM t'', []) \<and>
   build (offset 0 (limit 0 (QueryBuilder_init ''t''))) = (''SELECT * FROM t'', [])"
  by (simp add: build_def limit_def offset_def QueryBuilder_init_def truthy_int_def truthy_str_def)

section \<open>Properties of QueryCache\<close>

lemma oldest_split:
  "\<exists>pre post. e # es = pre @ foldl older e es # post \<and>
     (\<forall>x\<in>set pre. snd (foldl older e es) < snd x) \<and>
     (\<forall>x\<in>set post. snd (foldl older e es) \<le> snd x)"
proof (induction es arbitrary: e)
  case Nil
  have "[e] = [] @ foldl older e [] # [] \<and> (\<forall>x\<in>set []. snd (foldl older e []) < snd x) \<and>
     (\<forall>x\<in>set []. snd (foldl older e []) \<le> snd x)" by simp
  then show ?case by blast
next
  case (Cons x xs)
  show ?case
  proof (cases "snd x < snd e")
    case True
    then have o: "older e x = x" by (simp add: older_def)
    from Cons.IH [of x] obtain pre post where
      s: "x # xs = pre @ foldl older x xs # post"
      and l: "\<forall>y\<in>set pre. snd (foldl older x xs) < snd y"
      and r: "\<forall>y\<in>set post. snd (foldl older x xs) \<le> snd y"
      by blast
    have "x \<in> set (pre @ foldl older x xs # post)" using s by (metis list.set_intros(1))
    then have "snd (foldl older x xs) \<le> snd x" using l r by auto
    then have "snd (foldl older x xs) < snd e" using True by simp
    then have "e # x # xs = (e # pre) @ foldl older x xs # post \<and>
        (\<forall>y\<in>set (e # pre). snd (foldl older x xs) < snd y) \<and>
        (\<forall>y\<in>set post. snd (foldl older x xs) \<le> snd y)"
      using s l r by simp
    then show ?thesis unfolding foldl_Cons o by blast
  next
    case False
    then have o: "older e x = e" by (simp add: older_def)
    from Cons.IH [of e] obtain pre post where
      s: "e # xs = pre @ foldl older e xs # post"
      and l: "\<forall>y\<in>set pre. snd (foldl older e xs) < snd y"
      and r: "\<forall>y\<in>set post. snd (foldl older e xs) \<le> snd y"
      by blast
    show ?thesis
    proof (cases pre)
      case Nil
      then have "e # x # xs = [] @ foldl older e xs # (x # post) \<and>
          (\<forall>y\<in>set (x # post). snd (foldl older e xs) \<le> snd y)"
        using s r False by auto
      then show ?thesis unfolding foldl_Cons o by (metis empty_iff list.set(1))
    next
      case (Cons p pre')
      then have pe: "p = e" and xs: "xs = pre' @ foldl older e xs # post" using s by auto
      have "snd (foldl older e xs) < snd e" using l Cons pe by simp
      then have "snd (foldl older e xs) < snd x" using False by simp
      then have "e # x # xs = (e # x # pre') @ foldl older e xs # post \<and>
          (\<forall>y\<in>set (e # x # pre'). snd (foldl older e xs) < snd y)"
        using xs l Cons pe by auto
      then show ?thesis unfolding foldl_Cons o using r by blast
    qed
  qed
qed

lemma min_key_split:
  assumes "min_key ts = Some k"
  shows "\<exists>pre t post. ts = pre @ (k, t) # post \<and> (\<forall>x\<in>set pre. t < snd x) \<and> (\<forall>x\<in>set post. t \<le> snd x)"
proof (cases ts)
  case Nil
  with assms show ?thesis by (simp add: min_key_def)
next
  case (Cons e es)
  with assms have k: "k = fst (foldl older e es)" by (simp add: min_key_def)
  from oldest_split [of e es] Cons k show ?thesis
    by (metis prod.collapse)
qed

lemma min_key_None: "min_key ts = None \<longleftrightarrow> ts = []"
  by (cases ts) (simp_all add: min_key_def)


lemma length_update_alist:
  "length (AList.update k v al) = (if k \<in> fst ` set al then length al else Suc (length al))"
  by (induction al) auto

lemma length_delete_distinct:
  "distinct (map fst al) \<Longrightarrow> k \<in> fst ` set al \<Longrightarrow> Suc (length (AList.delete k al)) = length al"
  by (induction al) (auto simp: rev_image_eqI)

lemma dom_delete: "fst ` set (AList.delete k al) = fst ` set al - {k}"
  by (auto simp: AList.delete_eq)

lemma map_of_None_iff: "map_of al k = None \<longleftrightarrow> k \<notin> fst ` set al"
  by (simp add: map_of_eq_None_iff)

lemma cache_inv_init: "cache_inv (QueryCache_init m t)"
  by (simp add: cache_inv_def QueryCache_init_def)

lemma cache_inv_clear: "cache_inv (clear c)"
  by (simp add: cache_inv_def clear_def)

lemma cache_inv_delete:
  "cache_inv c \<Longrightarrow>
   cache_inv (c\<lparr>cache := AList.delete k (cache c), timestamps := AList.delete k (timestamps c)\<rparr>)"
  by (simp add: cache_inv_def AList.distinct_delete dom_delete)

lemma cache_inv_update:
  "cache_inv c \<Longrightarrow>
   cache_inv (c\<lparr>cache := AList.update k v (cache c), timestamps := AList.update k t (timestamps c)\<rparr>)"
  by (simp add: cache_inv_def AList.distinct_update AList.dom_update)

lemma cache_inv_get:
  assumes "cache_inv c" and "get now key c = Inr (r, c')"
  shows "cache_inv c'"
proof (cases "c' = c")
  case True
  with assms(1) show ?thesis by simp
next
  case False
  with assms(2)
  have "c' = c\<lparr>cache := AList.delete key (cache c), timestamps := AList.delete key (timestamps c)\<rparr>"
    by (auto simp: get_def split: option.splits if_splits)
  with cache_inv_delete [OF assms(1), of key] show ?thesis by simp
qed

lemma cache_inv_set_qc:
  assumes "cache_inv c" and "set_qc now key val c = Inr c'"
  shows "cache_inv c'"
proof (cases "int (length (cache c)) \<ge> max_size c")
  case False
  with assms(2)
  have "c' = c\<lparr>cache := AList.update key val (cache c),
                timestamps := AList.update key now (timestamps c)\<rparr>"
    by (auto simp: set_qc_def)
  with cache_inv_update [OF assms(1), where k = key and v = val and t = now] show ?thesis by simp
next
  case True
  with assms(2) obtain k where
    "c' = c\<lparr>cache := AList.update key val (AList.delete k (cache c)),
            timestamps := AList.update key now (AList.delete k (timestamps c))\<rparr>"
    by (auto simp: set_qc_def split: option.splits if_splits)
  moreover from cache_inv_update [OF cache_inv_delete [OF assms(1), of k],
      where k = key and v = val and t = now]
  have "cache_inv (c\<lparr>cache := AList.update key val (AList.delete k (cache c)),
            timestamps := AList.update key now (AList.delete k (timestamps c))\<rparr>)"
    by simp
  ultimately show ?thesis by simp
qed

text \<open>
  \<^verbatim>\<open>.seconds\<close> drops whole days: an entry one day and ten seconds old passes the
  expiry test of a cache with \<open>ttl = 3600\<close>.
\<close>

lemma get_drops_whole_days:
  "get 86410000000 ''k'' cache1 = Inr (Some (VInt 7), cache1)"
  by (simp add: get_def td_seconds_def cache1_def)

lemma td_seconds_within_day:
  "0 \<le> d \<Longrightarrow> d < 86400000000 \<Longrightarrow> td_seconds d = d div 1000000"
proof -
  assume "0 \<le> d" "d < 86400000000"
  then have "0 \<le> d div 1000000" "d div 1000000 < 86400" by simp_all
  then show ?thesis by (simp add: td_seconds_def)
qed

lemma expired_iff:
  assumes "0 \<le> d" "d < 86400000000"
  shows "td_seconds d > t \<longleftrightarrow> \<not> d < (t + 1) * 1000000"
proof -
  have "td_seconds d = d div 1000000" using assms by (rule td_seconds_within_day)
  moreover have "t < d div 1000000 \<longleftrightarrow> (t + 1) * 1000000 \<le> d"
    by auto
  ultimately show ?thesis by (simp only: not_less)
qed

text \<open>
  C4, as the code has it. For a key that \<^verbatim>\<open>self.cache\<close> lacks, \<^verbatim>\<open>get\<close> returns
  \<^verbatim>\<open>None\<close> and leaves the cache as it was. For a present entry whose age
  \<open>now - insertedAt\<close> lies between 0 and one day, \<^verbatim>\<open>get\<close> returns the stored value and
  leaves the cache as it was when the age is below \<open>ttl + 1\<close> seconds (the elapsed whole
  seconds are at most \<open>ttl\<close>); otherwise it removes the entry from both dicts and returns
  \<^verbatim>\<open>None\<close>.
\<close>

theorem get_by_age:
  assumes "cache_inv c"
  shows "(map_of (cache c) key = None \<longrightarrow> get now key c = Inr (None, c)) \<and>
    (\<forall>v. map_of (cache c) key = Some v \<longrightarrow>
       (\<exists>ts. map_of (timestamps c) key = Some ts \<and>
          (0 \<le> now - ts \<and> now - ts < 86400000000 \<longrightarrow>
             (if now - ts < (ttl c + 1) * 1000000
              then get now key c = Inr (Some v, c)
              else get now key c =
                     Inr (None, c\<lparr>cache := AList.delete key (cache c),
                                   timestamps := AList.delete key (timestamps c)\<rparr>) \<and>
                   map_of (AList.delete key (cache c)) key = None \<and>
                   map_of (AList.delete key (timestamps c)) key = None))))"
proof (intro conjI allI impI)
  assume "map_of (cache c) key = None"
  then show "get now key c = Inr (None, c)" by (simp add: get_def)
next
  fix v
  assume v: "map_of (cache c) key = Some v"
  then have "key \<in> fst ` set (timestamps c)"
    using assms by (metis cache_inv_def map_of_None_iff option.distinct(1))
  then obtain ts where ts: "map_of (timestamps c) key = Some ts"
    by (metis map_of_None_iff not_Some_eq)
  have "if now - ts < (ttl c + 1) * 1000000
        then get now key c = Inr (Some v, c)
        else get now key c =
               Inr (None, c\<lparr>cache := AList.delete key (cache c),
                             timestamps := AList.delete key (timestamps c)\<rparr>) \<and>
             map_of (AList.delete key (cache c)) key = None \<and>
             map_of (AList.delete key (timestamps c)) key = None"
    if "0 \<le> now - ts \<and> now - ts < 86400000000"
    using that v ts expired_iff [of "now - ts" "ttl c"]
    by (simp add: get_def AList.delete_conv)
  with ts show "\<exists>ts. map_of (timestamps c) key = Some ts \<and>
          (0 \<le> now - ts \<and> now - ts < 86400000000 \<longrightarrow>
             (if now - ts < (ttl c + 1) * 1000000
              then get now key c = Inr (Some v, c)
              else get now key c =
                     Inr (None, c\<lparr>cache := AList.delete key (cache c),
                                   timestamps := AList.delete key (timestamps c)\<rparr>) \<and>
                   map_of (AList.delete key (cache c)) key = None \<and>
                   map_of (AList.delete key (timestamps c)) key = None))"
    by blast
qed

theorem get_by_age_witness:
  "cache_inv cache1 \<and>
   get 5 ''j'' cache1 = Inr (None, cache1) \<and>
   get 3600999999 ''k'' cache1 = Inr (Some (VInt 7), cache1) \<and>
   get 3601000000 ''k'' cache1 = Inr (None, cache1\<lparr>cache := [], timestamps := []\<rparr>)"
proof -
  have i: "cache_inv cache1" by (simp add: cache_inv_def cache1_def)
  have a: "map_of (cache cache1) ''j'' = None" by (simp add: cache1_def)
  have p: "map_of (cache cache1) ''k'' = Some (VInt 7)" by (simp add: cache1_def)
  have t: "map_of (timestamps cache1) ''k'' = Some 0" by (simp add: cache1_def)
  from get_by_age [OF i, of "''j''" 5, THEN conjunct1, rule_format, OF a]
  have 1: "get 5 ''j'' cache1 = Inr (None, cache1)" .
  from get_by_age [OF i, of "''k''" 3600999999, THEN conjunct2, rule_format, OF p] t
  have 2: "get 3600999999 ''k'' cache1 = Inr (Some (VInt 7), cache1)"
    by (simp add: cache1_def)
  from get_by_age [OF i, of "''k''" 3601000000, THEN conjunct2, rule_format, OF p] t
  have 3: "get 3601000000 ''k'' cache1 = Inr (None, cache1\<lparr>cache := [], timestamps := []\<rparr>)"
    by (simp add: cache1_def)
  from i 1 2 3 show ?thesis by (intro conjI)
qed

text \<open>
  C4. The claim: \<^verbatim>\<open>get(k)\<close> returns the stored value only if
  \<open>now - insertedAt < ttl\<close>. In a cache with \<open>ttl = 3600\<close> seconds, an entry inserted at
  time 0 and read at exactly 3600 seconds (3600000000 microseconds) is returned, and the
  cache is unchanged, although its age is not below \<open>ttl\<close>.
\<close>

theorem get_at_ttl_counterexample:
  "get 3600000000 ''k'' cache1 = Inr (Some (VInt 7), cache1) \<and>
   map_of (timestamps cache1) ''k'' = Some 0 \<and>
   \<not> (3600000000 - 0 < ttl cache1 * 1000000)"
  by (simp add: get_def td_seconds_def cache1_def)

text \<open>
  C5, as the code has it. In a cache with \<open>max_size \<ge> 1\<close> that holds at most
  \<open>max_size\<close> entries, \<^verbatim>\<open>set(key, value)\<close> returns; afterwards the cache holds at most
  \<open>max_size\<close> entries, among them \<open>key\<close> with \<open>value\<close> and the time of the call. If the
  cache was at \<open>max_size\<close>, exactly one entry was evicted before the insertion: the one
  whose timestamp is smallest, the first such in the order of the dict when several share
  it (every earlier entry is strictly younger, every later one at least as young).
  Otherwise nothing was evicted.
\<close>

theorem set_qc_evicts_oldest:
  assumes "cache_inv c" and "1 \<le> max_size c" and "int (length (cache c)) \<le> max_size c"
  shows "\<exists>c'. set_qc now key val c = Inr c' \<and> cache_inv c' \<and>
     int (length (cache c')) \<le> max_size c' \<and>
     map_of (cache c') key = Some val \<and> map_of (timestamps c') key = Some now \<and>
     (if int (length (cache c)) = max_size c
      then \<exists>pre k t post.
             timestamps c = pre @ (k, t) # post \<and>
             (\<forall>x\<in>set pre. t < snd x) \<and> (\<forall>x\<in>set post. t \<le> snd x) \<and>
             k \<in> fst ` set (cache c) \<and>
             Suc (length (AList.delete k (cache c))) = length (cache c) \<and>
             c' = c\<lparr>cache := AList.update key val (AList.delete k (cache c)),
                    timestamps := AList.update key now (AList.delete k (timestamps c))\<rparr>
      else c' = c\<lparr>cache := AList.update key val (cache c),
                   timestamps := AList.update key now (timestamps c)\<rparr>)"
proof (cases "int (length (cache c)) = max_size c")
  case False
  then have lt: "int (length (cache c)) < max_size c" using assms(3) by simp
  let ?c' = "c\<lparr>cache := AList.update key val (cache c),
                timestamps := AList.update key now (timestamps c)\<rparr>"
  have 1: "set_qc now key val c = Inr ?c'" using lt by (simp add: set_qc_def)
  have 2: "cache_inv ?c'" using assms(1) by (rule cache_inv_update)
  have 3: "int (length (cache ?c')) \<le> max_size ?c'"
    using lt by (simp add: length_update_alist)
  have 4: "map_of (cache ?c') key = Some val" "map_of (timestamps ?c') key = Some now"
    by (simp_all add: AList.update_conv')
  show ?thesis
    unfolding if_not_P [OF False]
    apply (rule exI [of _ ?c'])
    apply (intro conjI)
    using 1 apply assumption
    using 2 apply assumption
    using 3 apply assumption
    using 4(1) apply assumption
    using 4(2) apply assumption
    apply (rule refl)
    done
next
  case True
  then have ne: "cache c \<noteq> []" using assms(2) by auto
  then have "timestamps c \<noteq> []" using assms(1) by (auto simp: cache_inv_def)
  then obtain k where k: "min_key (timestamps c) = Some k"
    by (metis min_key_None not_Some_eq)
  from min_key_split [OF k] obtain pre t post where
    s: "timestamps c = pre @ (k, t) # post"
    and l: "\<forall>x\<in>set pre. t < snd x" and r: "\<forall>x\<in>set post. t \<le> snd x"
    by blast
  have "k \<in> fst ` set (timestamps c)" using s by force
  then have kin: "k \<in> fst ` set (cache c)" using assms(1) by (simp add: cache_inv_def)
  then have kc: "map_of (cache c) k \<noteq> None" by (simp add: map_of_None_iff)
  have len: "Suc (length (AList.delete k (cache c))) = length (cache c)"
    using assms(1) kin by (simp add: cache_inv_def length_delete_distinct)
  let ?c1 = "c\<lparr>cache := AList.delete k (cache c), timestamps := AList.delete k (timestamps c)\<rparr>"
  let ?c' = "c\<lparr>cache := AList.update key val (AList.delete k (cache c)),
                timestamps := AList.update key now (AList.delete k (timestamps c))\<rparr>"
  have 1: "set_qc now key val c = Inr ?c'" using True k kc by (auto simp: set_qc_def)
  have "cache_inv ?c1" using assms(1) by (rule cache_inv_delete)
  from cache_inv_update [OF this, where k = key and v = val and t = now] have 2: "cache_inv ?c'" by simp
  have 3: "int (length (cache ?c')) \<le> max_size ?c'"
    using True len by (simp add: length_update_alist)
  have 4: "map_of (cache ?c') key = Some val" "map_of (timestamps ?c') key = Some now"
    by (simp_all add: AList.update_conv')
  have 5: "\<exists>pre k' t post.
         timestamps c = pre @ (k', t) # post \<and>
         (\<forall>x\<in>set pre. t < snd x) \<and> (\<forall>x\<in>set post. t \<le> snd x) \<and>
         k' \<in> fst ` set (cache c) \<and>
         Suc (length (AList.delete k' (cache c))) = length (cache c) \<and>
         ?c' = c\<lparr>cache := AList.update key val (AList.delete k' (cache c)),
                  timestamps := AList.update key now (AList.delete k' (timestamps c))\<rparr>"
    apply (rule exI [of _ pre], rule exI [of _ k], rule exI [of _ t], rule exI [of _ post])
    using s l r kin len apply (intro conjI)
         apply assumption+
    apply (rule refl)
    done
  show ?thesis
    unfolding if_P [OF True]
    apply (rule exI [of _ ?c'])
    apply (intro conjI)
    using 1 apply assumption
    using 2 apply assumption
    using 3 apply assumption
    using 4(1) apply assumption
    using 4(2) apply assumption
    using 5 apply assumption
    done
qed

theorem set_qc_evicts_oldest_witness:
  "cache_inv cache2 \<and> 1 \<le> max_size cache2 \<and> int (length (cache cache2)) \<le> max_size cache2 \<and>
   set_qc 5 ''k'' (VInt 9) cache2 =
     Inr \<lparr> cache = [(''b'', VInt 2), (''k'', VInt 9)], timestamps = [(''b'', 3), (''k'', 5)],
           max_size = 2, ttl = 3600 \<rparr> \<and>
   (\<exists>c'. set_qc 5 ''k'' (VInt 9) cache2 = Inr c' \<and> cache_inv c' \<and>
      int (length (cache c')) \<le> max_size c')"
proof -
  have i: "cache_inv cache2" by (simp add: cache_inv_def cache2_def)
  have m: "1 \<le> max_size cache2" by (simp add: cache2_def)
  have l: "int (length (cache cache2)) \<le> max_size cache2" by (simp add: cache2_def)
  have e: "set_qc 5 ''k'' (VInt 9) cache2 =
     Inr \<lparr> cache = [(''b'', VInt 2), (''k'', VInt 9)], timestamps = [(''b'', 3), (''k'', 5)],
           max_size = 2, ttl = 3600 \<rparr>"
    by (simp add: set_qc_def min_key_def older_def cache2_def)
  from set_qc_evicts_oldest [OF i m l, of 5 "''k''" "VInt 9"]
  have "\<exists>c'. set_qc 5 ''k'' (VInt 9) cache2 = Inr c' \<and> cache_inv c' \<and>
      int (length (cache c')) \<le> max_size c'"
    by blast
  with i m l e show ?thesis by (intro conjI)
qed

text \<open>
  C5. The claim covers every cache that holds at most \<open>max_size\<close> entries. An empty cache
  with \<open>max_size = 0\<close> is one, and it is at \<open>max_size\<close>; there \<^verbatim>\<open>set\<close> neither evicts
  nor inserts: \<^verbatim>\<open>min\<close> over the empty \<^verbatim>\<open>self.timestamps\<close> raises \<^verbatim>\<open>ValueError\<close>.
\<close>

theorem set_qc_zero_capacity_counterexample:
  "int (length (cache (QueryCache_init 0 3600 :: pyval QueryCache)))
     = max_size (QueryCache_init 0 3600 :: pyval QueryCache) \<and>
   set_qc 5 ''k'' (VInt 7) (QueryCache_init 0 3600) = Inl ValueError"
  by (simp add: set_qc_def QueryCache_init_def min_key_def)

section \<open>Properties of ConnectionPool\<close>

lemma butlast_shorter: "xs \<noteq> [] \<Longrightarrow> int (length xs) \<le> n \<Longrightarrow> int (length (butlast xs)) < n"
  by (cases xs rule: rev_cases) auto

lemma sqlite3_connect_fields:
  "pool_size (snd (sqlite3_connect p)) = pool_size p"
  "connections (snd (sqlite3_connect p)) = connections p"
  by (simp_all add: sqlite3_connect_def)

lemma initialize_pool_length:
  "initialize_pool k p = Inr p' \<Longrightarrow>
   length (connections p') = length (connections p) + k \<and> pool_size p' = pool_size p"
proof (induction k arbitrary: p)
  case 0
  then show ?case by simp
next
  case (Suc k)
  obtain r q where c: "sqlite3_connect p = (r, q)" by (cases "sqlite3_connect p")
  with Suc.prems obtain cn where r: "r = Inr cn" by (cases r) auto
  have q: "pool_size q = pool_size p" "connections q = connections p"
    using sqlite3_connect_fields [of p] c by simp_all
  from Suc.prems c r have "initialize_pool k (q\<lparr>connections := connections q @ [cn]\<rparr>) = Inr p'"
    by simp
  from Suc.IH [OF this] q show ?case by simp
qed

lemma pool_init_bound:
  assumes "ConnectionPool_init env db n = Inr p0"
  shows "pool_size p0 = n \<and> length (connections p0) = nat n"
  using initialize_pool_length [OF assms [unfolded ConnectionPool_init_def]]
  by simp

lemma pool_step_bound:
  assumes "length (connections p) \<le> nat (pool_size p)"
  shows "pool_size (pool_step p x) = pool_size p \<and>
         length (connections (pool_step p x)) \<le> nat (pool_size p)"
proof (cases x)
  case Acquire
  then show ?thesis
    using assms by (auto simp add: get_connection_def sqlite3_connect_def)
next
  case (Release c)
  then show ?thesis
    using assms by (auto simp add: return_connection_def)
qed

lemma pool_steps_bound:
  "length (connections p) \<le> nat (pool_size p) \<Longrightarrow>
   pool_size (foldl pool_step p ops) = pool_size p \<and>
   length (connections (foldl pool_step p ops)) \<le> nat (pool_size p)"
proof (induction ops arbitrary: p)
  case Nil
  then show ?case by simp
next
  case (Cons x ops)
  from pool_step_bound [OF Cons.prems, of x]
  have s: "pool_size (pool_step p x) = pool_size p"
    and l: "length (connections (pool_step p x)) \<le> nat (pool_size (pool_step p x))"
    by simp_all
  from Cons.IH [OF l] s show ?case by simp
qed

text \<open>
  C7. In every state \<open>p\<close> that a sequence of acquire and release operations reaches from a
  pool constructed with capacity \<open>n\<close>, the number of idle connections is at most \<open>n\<close>
  (and the pool holds none when \<open>n\<close> is negative). There \<^verbatim>\<open>get_connection\<close> pops the
  last idle connection if there is one and otherwise opens a new one, and
  \<^verbatim>\<open>return_connection\<close> appends the connection to the idle ones exactly when fewer than
  \<open>n\<close> are idle and closes it otherwise.
\<close>

theorem idle_connections_bounded:
  assumes "ConnectionPool_init env db n = Inr p0" and "p = foldl pool_step p0 ops"
  shows "length (connections p) \<le> nat n \<and>
    (0 \<le> n \<longrightarrow> int (length (connections p)) \<le> n) \<and>
    pool_size p = n \<and>
    (connections p \<noteq> [] \<longrightarrow>
       get_connection p = (Inr (last (connections p)), p\<lparr>connections := butlast (connections p)\<rparr>)) \<and>
    (connections p = [] \<longrightarrow> get_connection p = sqlite3_connect p) \<and>
    (connections p = [] \<and> can_open p (opened p) \<longrightarrow>
       get_connection p = (Inr (Conn (opened p)), p\<lparr>opened := Suc (opened p)\<rparr>)) \<and>
    (\<forall>c. return_connection c p =
       (if int (length (connections p)) < n then p\<lparr>connections := connections p @ [c]\<rparr>
        else p\<lparr>closed := closed p @ [c]\<rparr>))"
proof -
  from pool_init_bound [OF assms(1)]
  have i: "pool_size p0 = n" "length (connections p0) \<le> nat (pool_size p0)" by simp_all
  from pool_steps_bound [OF i(2), of ops] i(1) assms(2)
  have b: "pool_size p = n" "length (connections p) \<le> nat n" by simp_all
  from b(2) have c: "0 \<le> n \<longrightarrow> int (length (connections p)) \<le> n" by auto
  show ?thesis
    using b c by (simp add: get_connection_def return_connection_def sqlite3_connect_def)
qed

theorem idle_connections_bounded_witness:
  "ConnectionPool_init (\<lambda>_. True) ''app.db'' 1 =
     Inr \<lparr> database = ''app.db'', pool_size = 1, connections = [Conn 0], opened = 1,
           closed = [], can_open = (\<lambda>_. True) \<rparr> \<and>
   (0 :: int) \<le> 1 \<and>
   foldl pool_step
     \<lparr> database = ''app.db'', pool_size = 1, connections = [Conn 0], opened = 1,
       closed = [], can_open = (\<lambda>_. True) \<rparr>
     [Acquire, Acquire, Release (Conn 0), Release (Conn 1)] =
     \<lparr> database = ''app.db'', pool_size = 1, connections = [Conn 0], opened = 2,
       closed = [Conn 1], can_open = (\<lambda>_. True) \<rparr> \<and>
   int (length (connections (foldl pool_step
     \<lparr> database = ''app.db'', pool_size = 1, connections = [Conn 0], opened = 1,
       closed = [], can_open = (\<lambda>_. True) \<rparr>
     [Acquire, Acquire, Release (Conn 0), Release (Conn 1)]))) \<le> 1"
proof -
  let ?p0 = "\<lparr> database = ''app.db'', pool_size = 1, connections = [Conn 0], opened = 1,
       closed = [], can_open = (\<lambda>_. True) \<rparr>"
  let ?ops = "[Acquire, Acquire, Release (Conn 0), Release (Conn 1)]"
  have i: "ConnectionPool_init (\<lambda>_. True) ''app.db'' 1 = Inr ?p0"
    by (simp add: ConnectionPool_init_def sqlite3_connect_def)
  have r: "foldl pool_step ?p0 ?ops =
     \<lparr> database = ''app.db'', pool_size = 1, connections = [Conn 0], opened = 2,
       closed = [Conn 1], can_open = (\<lambda>_. True) \<rparr>"
    by (simp add: get_connection_def return_connection_def sqlite3_connect_def)
  from idle_connections_bounded [OF i refl, of ?ops]
  have b: "int (length (connections (foldl pool_step ?p0 ?ops))) \<le> 1"
    by simp
  from i r b show ?thesis by (intro conjI) simp_all
qed

lemma acquire_release_restores:
  assumes "connections p \<noteq> []" and "int (length (connections p)) \<le> pool_size p"
  shows "acquire_release p = p"
proof -
  have "int (length (butlast (connections p))) < pool_size p"
    using assms by (rule butlast_shorter)
  then show ?thesis
    using assms(1)
    by (simp add: acquire_release_def get_connection_def return_connection_def del: length_butlast)
qed

lemma acquire_release_keeps:
  assumes "get_connection p = (Inr c, p')"
  shows "c \<in> set (connections (acquire_release p)) \<union> set (closed (acquire_release p))"
  using assms by (simp add: acquire_release_def return_connection_def)

section \<open>Properties of Database\<close>

lemma execute_pool: "db_pool (snd (execute bk sql params db)) = acquire_release (db_pool db)"
  by (simp add: execute_def acquire_release_def split: prod.splits sum.splits option.splits)

lemma execute_cache: "db_cache (snd (execute bk sql params db)) = db_cache db"
  by (simp add: execute_def split: prod.splits sum.splits option.splits)

lemma fetch_one_pool:
  "db_pool (snd (fetch_one bk t1 t2 sql params db)) =
     (case get t1 (sql @ '':'' @ bk_repr bk params) (db_cache db) of
        Inl e \<Rightarrow> db_pool db
      | Inr (cached, c1) \<Rightarrow>
          if truthy_opt cached then db_pool db else acquire_release (db_pool db))"
  by (simp add: fetch_one_def acquire_release_def Let_def split: prod.splits sum.splits)

lemma fetch_all_pool:
  "db_pool (snd (fetch_all bk t1 t2 sql params db)) =
     (case get t1 (sql @ '':'' @ bk_repr bk params) (db_cache db) of
        Inl e \<Rightarrow> db_pool db
      | Inr (cached, c1) \<Rightarrow>
          if truthy_opt cached then db_pool db else acquire_release (db_pool db))"
  by (simp add: fetch_all_def acquire_release_def Let_def split: prod.splits sum.splits)

lemma get_hit_unchanged: "get now key c = Inr (Some v, c1) \<Longrightarrow> c1 = c"
  by (auto simp: get_def split: option.splits if_splits)

lemmas pool_defs = get_connection_def return_connection_def sqlite3_connect_def

lemmas concrete_defs = db0_def journal_backend_def failing_backend_def

lemma fetch_one_hit:
  assumes "get t1 (sql @ '':'' @ bk_repr bk params) (db_cache db) = Inr (Some v, c1)" and "truthy v"
  shows "fetch_one bk t1 t2 sql params db = (Inr v, db)"
proof -
  have "c1 = db_cache db" using assms(1) by (rule get_hit_unchanged)
  then show ?thesis using assms by (simp add: fetch_one_def truthy_opt_def)
qed

lemma fetch_all_hit:
  assumes "get t1 (sql @ '':'' @ bk_repr bk params) (db_cache db) = Inr (Some v, c1)" and "truthy v"
  shows "fetch_all bk t1 t2 sql params db = (Inr v, db)"
proof -
  have "c1 = db_cache db" using assms(1) by (rule get_hit_unchanged)
  then show ?thesis using assms by (simp add: fetch_all_def truthy_opt_def)
qed

lemma fetch_one_miss:
  assumes "get t1 (sql @ '':'' @ bk_repr bk params) (db_cache db) = Inr (cached, c1)"
    and "\<not> truthy_opt cached"
    and "get_connection (db_pool db) = (Inr conn, p)"
    and "bk_run bk conn sql params (db_store db) = (Inr cur, s1)"
    and "one_result bk conn cur = Inr r"
  shows "if truthy r
         then \<forall>c2. set_qc t2 (sql @ '':'' @ bk_repr bk params) r c1 = Inr c2 \<longrightarrow>
                fetch_one bk t1 t2 sql params db =
                  (Inr r, \<lparr>db_pool = return_connection conn p, db_cache = c2, db_store = s1\<rparr>)
         else fetch_one bk t1 t2 sql params db =
                  (Inr r, \<lparr>db_pool = return_connection conn p, db_cache = c1, db_store = s1\<rparr>)"
  using assms by (simp add: fetch_one_def)

lemma fetch_all_miss:
  assumes "get t1 (sql @ '':'' @ bk_repr bk params) (db_cache db) = Inr (cached, c1)"
    and "\<not> truthy_opt cached"
    and "get_connection (db_pool db) = (Inr conn, p)"
    and "bk_run bk conn sql params (db_store db) = (Inr cur, s1)"
    and "all_results bk conn cur = Inr r"
  shows "if truthy r
         then \<forall>c2. set_qc t2 (sql @ '':'' @ bk_repr bk params) r c1 = Inr c2 \<longrightarrow>
                fetch_all bk t1 t2 sql params db =
                  (Inr r, \<lparr>db_pool = return_connection conn p, db_cache = c2, db_store = s1\<rparr>)
         else fetch_all bk t1 t2 sql params db =
                  (Inr r, \<lparr>db_pool = return_connection conn p, db_cache = c1, db_store = s1\<rparr>)"
  using assms by (simp add: fetch_all_def)

lemma no_rows_results:
  "one_result bk conn [] = Inr VNone" "all_results bk conn [] = Inr (VList [])"
  by (simp_all add: one_result_def all_results_def)

lemma get_result_in_cache:
  "get now key c = Inr (cached, c1) \<Longrightarrow> map_of (cache c1) key = cached \<and> max_size c1 = max_size c"
  by (auto simp: get_def AList.delete_conv split: option.splits if_splits)

lemma set_qc_stores:
  "set_qc now key val c = Inr c' \<Longrightarrow>
   map_of (cache c') key = Some val \<and> map_of (timestamps c') key = Some now"
  by (auto simp: set_qc_def Let_def AList.update_conv' split: if_splits option.splits)

lemma set_qc_succeeds:
  assumes "cache_inv c" and "1 \<le> max_size c"
  shows "\<exists>c'. set_qc now key val c = Inr c'"
proof (cases "int (length (cache c)) \<ge> max_size c")
  case False
  then show ?thesis by (simp add: set_qc_def)
next
  case True
  then have "cache c \<noteq> []" using assms(2) by auto
  then have "timestamps c \<noteq> []" using assms(1) by (auto simp: cache_inv_def)
  then obtain k where k: "min_key (timestamps c) = Some k"
    by (metis min_key_None not_Some_eq)
  from min_key_split [OF k] have "k \<in> fst ` set (timestamps c)" by force
  then have "map_of (cache c) k \<noteq> None"
    using assms(1) by (simp add: cache_inv_def map_of_None_iff)
  with True k show ?thesis by (auto simp: set_qc_def)
qed

lemma one_result_first:
  "one_result bk conn ([] # rest) = Inr VNone"
  "row \<noteq> [] \<Longrightarrow> bk_dict bk conn row = Inr d \<Longrightarrow> one_result bk conn (row # rest) = Inr (VDict d)"
  by (simp_all add: one_result_def)

lemma dict_rows_all:
  "map (bk_dict bk conn) cur = map Inr ds \<Longrightarrow> dict_rows bk conn cur = Inr (map VDict ds)"
proof (induction cur arbitrary: ds)
  case Nil
  then show ?case by simp
next
  case (Cons row cur)
  then obtain d ds' where ds: "ds = d # ds'" by (cases ds) auto
  with Cons.prems have "bk_dict bk conn row = Inr d" "map (bk_dict bk conn) cur = map Inr ds'"
    by simp_all
  with Cons.IH [of ds'] ds show ?case by simp
qed

lemma all_results_rows:
  "map (bk_dict bk conn) cur = map Inr ds \<Longrightarrow> all_results bk conn cur = Inr (VList (map VDict ds))"
  by (simp add: all_results_def dict_rows_all)

lemma fetch_one_caches:
  assumes g: "get t1 (sql @ '':'' @ bk_repr bk params) (db_cache db) = Inr (cached, c1)"
    and m: "\<not> truthy_opt cached"
    and a: "get_connection (db_pool db) = (Inr conn, p)"
    and r: "bk_run bk conn sql params (db_store db) = (Inr cur, s1)"
    and i: "cache_inv (db_cache db)" and n: "1 \<le> max_size (db_cache db)"
    and c: "cur = row # rest" and t: "row \<noteq> []" and d: "bk_dict bk conn row = Inr d"
    and e: "d \<noteq> []"
  shows "\<exists>c2. fetch_one bk t1 t2 sql params db =
             (Inr (VDict d), \<lparr>db_pool = return_connection conn p, db_cache = c2, db_store = s1\<rparr>) \<and>
           set_qc t2 (sql @ '':'' @ bk_repr bk params) (VDict d) c1 = Inr c2 \<and>
           map_of (cache c2) (sql @ '':'' @ bk_repr bk params) = Some (VDict d) \<and>
           map_of (timestamps c2) (sql @ '':'' @ bk_repr bk params) = Some t2 \<and>
           cache_inv c2"
proof -
  let ?key = "sql @ '':'' @ bk_repr bk params"
  have i1: "cache_inv c1" using i g by (rule cache_inv_get)
  have n1: "1 \<le> max_size c1" using get_result_in_cache [OF g] n by simp
  from set_qc_succeeds [OF i1 n1, of t2 ?key "VDict d"]
  obtain c2 where s: "set_qc t2 ?key (VDict d) c1 = Inr c2" by blast
  have o: "one_result bk conn cur = Inr (VDict d)"
    unfolding c using t d by (rule one_result_first)
  from fetch_one_miss [OF g m a r o, of t2] e s
  have "fetch_one bk t1 t2 sql params db =
      (Inr (VDict d), \<lparr>db_pool = return_connection conn p, db_cache = c2, db_store = s1\<rparr>)"
    by simp
  with s set_qc_stores [OF s] cache_inv_set_qc [OF i1 s] show ?thesis by blast
qed

lemma fetch_all_caches:
  assumes g: "get t1 (sql @ '':'' @ bk_repr bk params) (db_cache db) = Inr (cached, c1)"
    and m: "\<not> truthy_opt cached"
    and a: "get_connection (db_pool db) = (Inr conn, p)"
    and r: "bk_run bk conn sql params (db_store db) = (Inr cur, s1)"
    and i: "cache_inv (db_cache db)" and n: "1 \<le> max_size (db_cache db)"
    and d: "map (bk_dict bk conn) cur = map Inr ds" and e: "ds \<noteq> []"
  shows "\<exists>c2. fetch_all bk t1 t2 sql params db =
             (Inr (VList (map VDict ds)),
              \<lparr>db_pool = return_connection conn p, db_cache = c2, db_store = s1\<rparr>) \<and>
           set_qc t2 (sql @ '':'' @ bk_repr bk params) (VList (map VDict ds)) c1 = Inr c2 \<and>
           map_of (cache c2) (sql @ '':'' @ bk_repr bk params) = Some (VList (map VDict ds)) \<and>
           map_of (timestamps c2) (sql @ '':'' @ bk_repr bk params) = Some t2 \<and>
           cache_inv c2"
proof -
  let ?key = "sql @ '':'' @ bk_repr bk params"
  let ?r = "VList (map VDict ds)"
  have i1: "cache_inv c1" using i g by (rule cache_inv_get)
  have n1: "1 \<le> max_size c1" using get_result_in_cache [OF g] n by simp
  from set_qc_succeeds [OF i1 n1, of t2 ?key ?r]
  obtain c2 where s: "set_qc t2 ?key ?r c1 = Inr c2" by blast
  have o: "all_results bk conn cur = Inr ?r" using d by (rule all_results_rows)
  from fetch_all_miss [OF g m a r o, of t2] e s
  have "fetch_all bk t1 t2 sql params db =
      (Inr ?r, \<lparr>db_pool = return_connection conn p, db_cache = c2, db_store = s1\<rparr>)"
    by simp
  with s set_qc_stores [OF s] cache_inv_set_qc [OF i1 s] show ?thesis by blast
qed

lemma fetch_one_empty_row:
  assumes g: "get t1 (sql @ '':'' @ bk_repr bk params) (db_cache db) = Inr (cached, c1)"
    and m: "\<not> truthy_opt cached"
    and a: "get_connection (db_pool db) = (Inr conn, p)"
    and r: "bk_run bk conn sql params (db_store db) = (Inr cur, s1)"
    and c: "cur = row # rest"
  shows "row = [] \<Longrightarrow> fetch_one bk t1 t2 sql params db =
           (Inr VNone, \<lparr>db_pool = return_connection conn p, db_cache = c1, db_store = s1\<rparr>)"
    and "row \<noteq> [] \<Longrightarrow> bk_dict bk conn row = Inr [] \<Longrightarrow> fetch_one bk t1 t2 sql params db =
           (Inr (VDict []), \<lparr>db_pool = return_connection conn p, db_cache = c1, db_store = s1\<rparr>)"
proof -
  assume "row = []"
  then have "one_result bk conn cur = Inr VNone" using c by (simp add: one_result_first)
  from fetch_one_miss [OF g m a r this, of t2]
  show "fetch_one bk t1 t2 sql params db =
      (Inr VNone, \<lparr>db_pool = return_connection conn p, db_cache = c1, db_store = s1\<rparr>)"
    by simp
next
  assume "row \<noteq> []" "bk_dict bk conn row = Inr []"
  then have "one_result bk conn cur = Inr (VDict [])" using c by (simp add: one_result_first)
  from fetch_one_miss [OF g m a r this, of t2]
  show "fetch_one bk t1 t2 sql params db =
      (Inr (VDict []), \<lparr>db_pool = return_connection conn p, db_cache = c1, db_store = s1\<rparr>)"
    by simp
qed

text \<open>
  C8. A read through \<^verbatim>\<open>fetch_one\<close> or \<^verbatim>\<open>fetch_all\<close> with cache key
  \<open>sql:params\<close>. On a hit (\<^verbatim>\<open>cache.get\<close> returns a truthy value) that value is returned
  and the database is left as it was: no connection is acquired and the store is not
  touched. On a miss, once a connection is acquired and the statement has run on the
  store, the rows of the cursor decide. \<^verbatim>\<open>fetch_one\<close> returns the dict of the first row,
  \<^verbatim>\<open>fetch_all\<close> the list of the dicts of all rows; when that result is non-empty, and
  the cache is in its invariant with \<open>max_size \<ge> 1\<close>, \<^verbatim>\<open>cache.set\<close> succeeds and the
  cache after the call maps the key to exactly the returned result, stamped with the time
  of the \<^verbatim>\<open>set\<close>. When the result is empty (no row: \<^verbatim>\<open>None\<close>, respectively \<^verbatim>\<open>[]\<close>;
  or an empty first row or dict) it is returned and the cache stays as \<^verbatim>\<open>cache.get\<close>
  left it, where the key has no truthy value.
\<close>

theorem fetch_cache_policy:
  assumes "key = sql @ '':'' @ bk_repr bk params"
  shows
    "(\<forall>v c1. get t1 key (db_cache db) = Inr (Some v, c1) \<and> truthy v \<longrightarrow>
        fetch_one bk t1 t2 sql params db = (Inr v, db) \<and>
        fetch_all bk t1 t2 sql params db = (Inr v, db)) \<and>
     (\<forall>cached c1 conn p cur s1.
        get t1 key (db_cache db) = Inr (cached, c1) \<and> \<not> truthy_opt cached \<and>
        get_connection (db_pool db) = (Inr conn, p) \<and>
        bk_run bk conn sql params (db_store db) = (Inr cur, s1) \<longrightarrow>
        (\<forall>r. one_result bk conn cur = Inr r \<longrightarrow>
           (if truthy r
            then \<forall>c2. set_qc t2 key r c1 = Inr c2 \<longrightarrow>
                   fetch_one bk t1 t2 sql params db =
                     (Inr r, \<lparr>db_pool = return_connection conn p, db_cache = c2, db_store = s1\<rparr>)
            else fetch_one bk t1 t2 sql params db =
                   (Inr r, \<lparr>db_pool = return_connection conn p, db_cache = c1, db_store = s1\<rparr>))) \<and>
        (\<forall>r. all_results bk conn cur = Inr r \<longrightarrow>
           (if truthy r
            then \<forall>c2. set_qc t2 key r c1 = Inr c2 \<longrightarrow>
                   fetch_all bk t1 t2 sql params db =
                     (Inr r, \<lparr>db_pool = return_connection conn p, db_cache = c2, db_store = s1\<rparr>)
            else fetch_all bk t1 t2 sql params db =
                   (Inr r, \<lparr>db_pool = return_connection conn p, db_cache = c1, db_store = s1\<rparr>))) \<and>
        (cur = [] \<longrightarrow>
           fetch_one bk t1 t2 sql params db =
             (Inr VNone, \<lparr>db_pool = return_connection conn p, db_cache = c1, db_store = s1\<rparr>) \<and>
           fetch_all bk t1 t2 sql params db =
             (Inr (VList []), \<lparr>db_pool = return_connection conn p, db_cache = c1, db_store = s1\<rparr>)) \<and>
        map_of (cache c1) key = cached \<and>
        (\<forall>row rest. cur = row # rest \<and> row = [] \<longrightarrow>
           fetch_one bk t1 t2 sql params db =
             (Inr VNone, \<lparr>db_pool = return_connection conn p, db_cache = c1, db_store = s1\<rparr>)) \<and>
        (\<forall>row rest. cur = row # rest \<and> row \<noteq> [] \<and> bk_dict bk conn row = Inr [] \<longrightarrow>
           fetch_one bk t1 t2 sql params db =
             (Inr (VDict []), \<lparr>db_pool = return_connection conn p, db_cache = c1, db_store = s1\<rparr>)) \<and>
        (cache_inv (db_cache db) \<and> 1 \<le> max_size (db_cache db) \<longrightarrow>
           (\<forall>row rest d. cur = row # rest \<and> row \<noteq> [] \<and> bk_dict bk conn row = Inr d \<and> d \<noteq> [] \<longrightarrow>
              (\<exists>c2. fetch_one bk t1 t2 sql params db =
                      (Inr (VDict d),
                       \<lparr>db_pool = return_connection conn p, db_cache = c2, db_store = s1\<rparr>) \<and>
                    set_qc t2 key (VDict d) c1 = Inr c2 \<and>
                    map_of (cache c2) key = Some (VDict d) \<and>
                    map_of (timestamps c2) key = Some t2 \<and>
                    cache_inv c2)) \<and>
           (\<forall>ds. map (bk_dict bk conn) cur = map Inr ds \<and> ds \<noteq> [] \<longrightarrow>
              (\<exists>c2. fetch_all bk t1 t2 sql params db =
                      (Inr (VList (map VDict ds)),
                       \<lparr>db_pool = return_connection conn p, db_cache = c2, db_store = s1\<rparr>) \<and>
                    set_qc t2 key (VList (map VDict ds)) c1 = Inr c2 \<and>
                    map_of (cache c2) key = Some (VList (map VDict ds)) \<and>
                    map_of (timestamps c2) key = Some t2 \<and>
                    cache_inv c2))))"
proof (intro conjI allI impI; (elim conjE)?)
  fix v c1
  assume "get t1 key (db_cache db) = Inr (Some v, c1)" "truthy v"
  then show "fetch_one bk t1 t2 sql params db = (Inr v, db)"
    unfolding assms by (rule fetch_one_hit)
next
  fix v c1
  assume "get t1 key (db_cache db) = Inr (Some v, c1)" "truthy v"
  then show "fetch_all bk t1 t2 sql params db = (Inr v, db)"
    unfolding assms by (rule fetch_all_hit)
next
  fix cached c1 conn p cur s1 r
  assume "get t1 key (db_cache db) = Inr (cached, c1)" "\<not> truthy_opt cached"
    "get_connection (db_pool db) = (Inr conn, p)"
    "bk_run bk conn sql params (db_store db) = (Inr cur, s1)"
    "one_result bk conn cur = Inr r"
  then show "if truthy r
      then \<forall>c2. set_qc t2 key r c1 = Inr c2 \<longrightarrow>
             fetch_one bk t1 t2 sql params db =
               (Inr r, \<lparr>db_pool = return_connection conn p, db_cache = c2, db_store = s1\<rparr>)
      else fetch_one bk t1 t2 sql params db =
             (Inr r, \<lparr>db_pool = return_connection conn p, db_cache = c1, db_store = s1\<rparr>)"
    unfolding assms by (rule fetch_one_miss)
next
  fix cached c1 conn p cur s1 r
  assume "get t1 key (db_cache db) = Inr (cached, c1)" "\<not> truthy_opt cached"
    "get_connection (db_pool db) = (Inr conn, p)"
    "bk_run bk conn sql params (db_store db) = (Inr cur, s1)"
    "all_results bk conn cur = Inr r"
  then show "if truthy r
      then \<forall>c2. set_qc t2 key r c1 = Inr c2 \<longrightarrow>
             fetch_all bk t1 t2 sql params db =
               (Inr r, \<lparr>db_pool = return_connection conn p, db_cache = c2, db_store = s1\<rparr>)
      else fetch_all bk t1 t2 sql params db =
             (Inr r, \<lparr>db_pool = return_connection conn p, db_cache = c1, db_store = s1\<rparr>)"
    unfolding assms by (rule fetch_all_miss)
next
  fix cached c1 conn p cur s1
  assume a: "get t1 key (db_cache db) = Inr (cached, c1)" "\<not> truthy_opt cached"
    "get_connection (db_pool db) = (Inr conn, p)"
    "bk_run bk conn sql params (db_store db) = (Inr cur, s1)"
    and e: "cur = []"
  from fetch_one_miss [OF a [unfolded assms] no_rows_results(1) [of bk conn, folded e]]
  show "fetch_one bk t1 t2 sql params db =
      (Inr VNone, \<lparr>db_pool = return_connection conn p, db_cache = c1, db_store = s1\<rparr>)"
    by simp
next
  fix cached c1 conn p cur s1
  assume a: "get t1 key (db_cache db) = Inr (cached, c1)" "\<not> truthy_opt cached"
    "get_connection (db_pool db) = (Inr conn, p)"
    "bk_run bk conn sql params (db_store db) = (Inr cur, s1)"
    and e: "cur = []"
  from fetch_all_miss [OF a [unfolded assms] no_rows_results(2) [of bk conn, folded e]]
  show "fetch_all bk t1 t2 sql params db =
      (Inr (VList []), \<lparr>db_pool = return_connection conn p, db_cache = c1, db_store = s1\<rparr>)"
    by simp
next
  fix cached c1
  assume "get t1 key (db_cache db) = Inr (cached, c1)"
  from get_result_in_cache [OF this] show "map_of (cache c1) key = cached" by simp
next
  fix cached c1 conn p cur s1 row rest
  assume "get t1 key (db_cache db) = Inr (cached, c1)" "\<not> truthy_opt cached"
    "get_connection (db_pool db) = (Inr conn, p)"
    "bk_run bk conn sql params (db_store db) = (Inr cur, s1)"
    "cur = row # rest" "row = []"
  then show "fetch_one bk t1 t2 sql params db =
      (Inr VNone, \<lparr>db_pool = return_connection conn p, db_cache = c1, db_store = s1\<rparr>)"
    unfolding assms by (rule fetch_one_empty_row(1))
next
  fix cached c1 conn p cur s1 row rest
  assume "get t1 key (db_cache db) = Inr (cached, c1)" "\<not> truthy_opt cached"
    "get_connection (db_pool db) = (Inr conn, p)"
    "bk_run bk conn sql params (db_store db) = (Inr cur, s1)"
    "cur = row # rest" "row \<noteq> []" "bk_dict bk conn row = Inr []"
  then show "fetch_one bk t1 t2 sql params db =
      (Inr (VDict []), \<lparr>db_pool = return_connection conn p, db_cache = c1, db_store = s1\<rparr>)"
    unfolding assms by (rule fetch_one_empty_row(2))
next
  fix cached c1 conn p cur s1 row rest d
  assume "get t1 key (db_cache db) = Inr (cached, c1)" "\<not> truthy_opt cached"
    "get_connection (db_pool db) = (Inr conn, p)"
    "bk_run bk conn sql params (db_store db) = (Inr cur, s1)"
    "cache_inv (db_cache db)" "1 \<le> max_size (db_cache db)"
    "cur = row # rest" "row \<noteq> []" "bk_dict bk conn row = Inr d" "d \<noteq> []"
  then show "\<exists>c2. fetch_one bk t1 t2 sql params db =
        (Inr (VDict d), \<lparr>db_pool = return_connection conn p, db_cache = c2, db_store = s1\<rparr>) \<and>
      set_qc t2 key (VDict d) c1 = Inr c2 \<and>
      map_of (cache c2) key = Some (VDict d) \<and>
      map_of (timestamps c2) key = Some t2 \<and>
      cache_inv c2"
    unfolding assms by (rule fetch_one_caches)
next
  fix cached c1 conn p cur s1 ds
  assume "get t1 key (db_cache db) = Inr (cached, c1)" "\<not> truthy_opt cached"
    "get_connection (db_pool db) = (Inr conn, p)"
    "bk_run bk conn sql params (db_store db) = (Inr cur, s1)"
    "cache_inv (db_cache db)" "1 \<le> max_size (db_cache db)"
    "map (bk_dict bk conn) cur = map Inr ds" "ds \<noteq> []"
  then show "\<exists>c2. fetch_all bk t1 t2 sql params db =
        (Inr (VList (map VDict ds)),
         \<lparr>db_pool = return_connection conn p, db_cache = c2, db_store = s1\<rparr>) \<and>
      set_qc t2 key (VList (map VDict ds)) c1 = Inr c2 \<and>
      map_of (cache c2) key = Some (VList (map VDict ds)) \<and>
      map_of (timestamps c2) key = Some t2 \<and>
      cache_inv c2"
    unfolding assms by (rule fetch_all_caches)
qed

theorem fetch_cache_policy_witness:
  "fetch_one (journal_backend []) 5 6 ''SELECT * FROM users'' [] db0 =
     (Inr (VList [VDict [(''id'', VInt 7)]]), db0) \<and>
   fetch_all (journal_backend []) 5 6 ''SELECT * FROM users'' [] db0 =
     (Inr (VList [VDict [(''id'', VInt 7)]]), db0) \<and>
   fetch_one (journal_backend []) 5 6 ''SELECT 1'' [] db0 =
     (Inr VNone, db0\<lparr>db_store := \<lparr>pending = [(''SELECT 1'', [])], committed = []\<rparr>\<rparr>) \<and>
   fetch_all (journal_backend []) 5 6 ''SELECT 1'' [] db0 =
     (Inr (VList []), db0\<lparr>db_store := \<lparr>pending = [(''SELECT 1'', [])], committed = []\<rparr>\<rparr>) \<and>
   fetch_one (journal_backend [[(''n'', VInt 1)], [(''n'', VInt 2)]]) 5 6 ''SELECT 1'' [] db0 =
     (Inr (VDict [(''n'', VInt 1)]),
      db0\<lparr>db_cache :=
            \<lparr>cache = [(''SELECT * FROM users:()'', VList [VDict [(''id'', VInt 7)]]),
                      (''SELECT 1:()'', VDict [(''n'', VInt 1)])],
             timestamps = [(''SELECT * FROM users:()'', 0), (''SELECT 1:()'', 6)],
             max_size = 1000, ttl = 3600\<rparr>,
          db_store := \<lparr>pending = [(''SELECT 1'', [])], committed = []\<rparr>\<rparr>) \<and>
   fetch_all (journal_backend [[(''n'', VInt 1)], [(''n'', VInt 2)]]) 5 6 ''SELECT 1'' [] db0 =
     (Inr (VList [VDict [(''n'', VInt 1)], VDict [(''n'', VInt 2)]]),
      db0\<lparr>db_cache :=
            \<lparr>cache = [(''SELECT * FROM users:()'', VList [VDict [(''id'', VInt 7)]]),
                      (''SELECT 1:()'', VList [VDict [(''n'', VInt 1)], VDict [(''n'', VInt 2)]])],
             timestamps = [(''SELECT * FROM users:()'', 0), (''SELECT 1:()'', 6)],
             max_size = 1000, ttl = 3600\<rparr>,
          db_store := \<lparr>pending = [(''SELECT 1'', [])], committed = []\<rparr>\<rparr>)"
proof -
  let ?V = "VList [VDict [(''id'', VInt 7)]]"
  let ?rows = "[[(''n'', VInt 1)], [(''n'', VInt 2)]]"
  let ?s = "\<lparr>pending = [(''SELECT 1'', [])], committed = []\<rparr>"
  have h: "get 5 (''SELECT * FROM users'' @ '':'' @ bk_repr (journal_backend []) []) (db_cache db0) =
             Inr (Some ?V, db_cache db0) \<and> truthy ?V"
    by (simp add: get_def td_seconds_def concrete_defs)
  have m: "get 5 (''SELECT 1'' @ '':'' @ bk_repr (journal_backend []) []) (db_cache db0) =
             Inr (None, db_cache db0) \<and> \<not> truthy_opt None \<and>
           get_connection (db_pool db0) = (Inr (Conn 0), (db_pool db0)\<lparr>connections := []\<rparr>) \<and>
           bk_run (journal_backend []) (Conn 0) ''SELECT 1'' [] (db_store db0) = (Inr [], ?s)"
    by (simp add: get_def truthy_opt_def get_connection_def concrete_defs)
  have n: "get 5 (''SELECT 1'' @ '':'' @ bk_repr (journal_backend ?rows) []) (db_cache db0) =
             Inr (None, db_cache db0) \<and> \<not> truthy_opt None \<and>
           get_connection (db_pool db0) = (Inr (Conn 0), (db_pool db0)\<lparr>connections := []\<rparr>) \<and>
           bk_run (journal_backend ?rows) (Conn 0) ''SELECT 1'' [] (db_store db0) = (Inr ?rows, ?s)"
    by (simp add: get_def truthy_opt_def get_connection_def concrete_defs)
  have i: "cache_inv (db_cache db0) \<and> 1 \<le> max_size (db_cache db0)"
    by (simp add: cache_inv_def db0_def)
  have r: "return_connection (Conn 0) ((db_pool db0)\<lparr>connections := []\<rparr>) = db_pool db0"
    by (simp add: return_connection_def concrete_defs)
  have o: "?rows = [(''n'', VInt 1)] # [[(''n'', VInt 2)]] \<and> [(''n'', VInt 1)] \<noteq> [] \<and>
      bk_dict (journal_backend ?rows) (Conn 0) [(''n'', VInt 1)] = Inr [(''n'', VInt 1)] \<and>
      [(''n'', VInt 1)] \<noteq> ([] :: (string \<times> pyval) list)"
    by (simp add: journal_backend_def)
  have a: "map (bk_dict (journal_backend ?rows) (Conn 0)) ?rows = map Inr ?rows \<and>
      ?rows \<noteq> []"
    by (simp add: journal_backend_def)
  note hit = fetch_cache_policy [OF refl, THEN conjunct1, rule_format, OF h, of 6]
  note empty = fetch_cache_policy [OF refl, THEN conjunct2, rule_format, OF m, of 6]
  note full = fetch_cache_policy [OF refl, THEN conjunct2, rule_format, OF n, of 6]
  from hit have 1: "fetch_one (journal_backend []) 5 6 ''SELECT * FROM users'' [] db0 = (Inr ?V, db0)"
    and 2: "fetch_all (journal_backend []) 5 6 ''SELECT * FROM users'' [] db0 = (Inr ?V, db0)"
    by simp_all
  from empty r have 3: "fetch_one (journal_backend []) 5 6 ''SELECT 1'' [] db0 =
      (Inr VNone, db0\<lparr>db_store := ?s\<rparr>)"
    and 4: "fetch_all (journal_backend []) 5 6 ''SELECT 1'' [] db0 =
      (Inr (VList []), db0\<lparr>db_store := ?s\<rparr>)"
    by (simp_all add: db0_def)
  note caches = full [THEN conjunct2, THEN conjunct2, THEN conjunct2, THEN conjunct2,
      THEN conjunct2, THEN conjunct2, rule_format, OF i]
  have k: "''SELECT 1'' @ '':'' @ bk_repr (journal_backend ?rows) [] = ''SELECT 1:()''"
    by (simp add: journal_backend_def)
  have q1: "set_qc 6 ''SELECT 1:()'' (VDict [(''n'', VInt 1)]) (db_cache db0) =
      Inr \<lparr>cache = [(''SELECT * FROM users:()'', VList [VDict [(''id'', VInt 7)]]),
                     (''SELECT 1:()'', VDict [(''n'', VInt 1)])],
            timestamps = [(''SELECT * FROM users:()'', 0), (''SELECT 1:()'', 6)],
            max_size = 1000, ttl = 3600\<rparr>"
    by (simp add: set_qc_def db0_def)
  have q2: "set_qc 6 ''SELECT 1:()'' (VList [VDict [(''n'', VInt 1)], VDict [(''n'', VInt 2)]])
        (db_cache db0) =
      Inr \<lparr>cache = [(''SELECT * FROM users:()'', VList [VDict [(''id'', VInt 7)]]),
                     (''SELECT 1:()'', VList [VDict [(''n'', VInt 1)], VDict [(''n'', VInt 2)]])],
            timestamps = [(''SELECT * FROM users:()'', 0), (''SELECT 1:()'', 6)],
            max_size = 1000, ttl = 3600\<rparr>"
    by (simp add: set_qc_def db0_def)
  from caches [THEN conjunct1, rule_format, OF o]
  obtain c2 where f: "fetch_one (journal_backend ?rows) 5 6 ''SELECT 1'' [] db0 =
        (Inr (VDict [(''n'', VInt 1)]),
         \<lparr>db_pool = return_connection (Conn 0) ((db_pool db0)\<lparr>connections := []\<rparr>),
            db_cache = c2, db_store = ?s\<rparr>)"
    and "set_qc 6 (''SELECT 1'' @ '':'' @ bk_repr (journal_backend ?rows) [])
        (VDict [(''n'', VInt 1)]) (db_cache db0) = Inr c2"
    by blast
  then have "c2 = \<lparr>cache = [(''SELECT * FROM users:()'', VList [VDict [(''id'', VInt 7)]]),
                     (''SELECT 1:()'', VDict [(''n'', VInt 1)])],
            timestamps = [(''SELECT * FROM users:()'', 0), (''SELECT 1:()'', 6)],
            max_size = 1000, ttl = 3600\<rparr>"
    unfolding k q1 by simp
  with f r
  have 5: "fetch_one (journal_backend ?rows) 5 6 ''SELECT 1'' [] db0 =
     (Inr (VDict [(''n'', VInt 1)]),
      db0\<lparr>db_cache :=
            \<lparr>cache = [(''SELECT * FROM users:()'', VList [VDict [(''id'', VInt 7)]]),
                      (''SELECT 1:()'', VDict [(''n'', VInt 1)])],
             timestamps = [(''SELECT * FROM users:()'', 0), (''SELECT 1:()'', 6)],
             max_size = 1000, ttl = 3600\<rparr>,
          db_store := ?s\<rparr>)"
    by (simp add: db0_def)
  from caches [THEN conjunct2, rule_format, OF a]
  obtain c3 where g: "fetch_all (journal_backend ?rows) 5 6 ''SELECT 1'' [] db0 =
        (Inr (VList (map VDict ?rows)),
         \<lparr>db_pool = return_connection (Conn 0) ((db_pool db0)\<lparr>connections := []\<rparr>),
            db_cache = c3, db_store = ?s\<rparr>)"
    and "set_qc 6 (''SELECT 1'' @ '':'' @ bk_repr (journal_backend ?rows) [])
        (VList (map VDict ?rows)) (db_cache db0) = Inr c3"
    by blast
  then have "c3 = \<lparr>cache = [(''SELECT * FROM users:()'', VList [VDict [(''id'', VInt 7)]]),
                     (''SELECT 1:()'', VList [VDict [(''n'', VInt 1)], VDict [(''n'', VInt 2)]])],
            timestamps = [(''SELECT * FROM users:()'', 0), (''SELECT 1:()'', 6)],
            max_size = 1000, ttl = 3600\<rparr>"
    unfolding k using q2 by simp
  with g r
  have 6: "fetch_all (journal_backend ?rows) 5 6 ''SELECT 1'' [] db0 =
     (Inr (VList [VDict [(''n'', VInt 1)], VDict [(''n'', VInt 2)]]),
      db0\<lparr>db_cache :=
            \<lparr>cache = [(''SELECT * FROM users:()'', VList [VDict [(''id'', VInt 7)]]),
                      (''SELECT 1:()'', VList [VDict [(''n'', VInt 1)], VDict [(''n'', VInt 2)]])],
             timestamps = [(''SELECT * FROM users:()'', 0), (''SELECT 1:()'', 6)],
             max_size = 1000, ttl = 3600\<rparr>,
          db_store := ?s\<rparr>)"
    by (simp add: db0_def)
  from 1 2 3 4 5 6 show ?thesis by (intro conjI)
qed

text \<open>
  C10. Every call of \<^verbatim>\<open>execute\<close>, \<^verbatim>\<open>fetch_one\<close> or \<^verbatim>\<open>fetch_all\<close> that acquires a
  connection returns it: the pool after the call is the pool after an acquire followed by
  the release of the acquired connection, whatever the statement did, so a store on which
  the statement raises leaves the same pool as a store on which it succeeds. A read that
  is answered from the cache, or stopped by an error of \<^verbatim>\<open>cache.get\<close>, acquires nothing
  and leaves the pool as it was. The acquired connection is idle or closed afterwards, and
  a pool within its bound that had an idle connection is exactly as before.
\<close>

theorem connection_returned_on_every_path:
  "db_pool (snd (execute bk sql params db)) = acquire_release (db_pool db) \<and>
   db_pool (snd (execute bk sql params db)) = db_pool (snd (execute bk' sql params db)) \<and>
   db_pool (snd (fetch_one bk t1 t2 sql params db)) =
     (case get t1 (sql @ '':'' @ bk_repr bk params) (db_cache db) of
        Inl e \<Rightarrow> db_pool db
      | Inr (cached, c1) \<Rightarrow>
          if truthy_opt cached then db_pool db else acquire_release (db_pool db)) \<and>
   db_pool (snd (fetch_all bk t1 t2 sql params db)) =
     (case get t1 (sql @ '':'' @ bk_repr bk params) (db_cache db) of
        Inl e \<Rightarrow> db_pool db
      | Inr (cached, c1) \<Rightarrow>
          if truthy_opt cached then db_pool db else acquire_release (db_pool db)) \<and>
   (\<forall>c p. get_connection (db_pool db) = (Inr c, p) \<longrightarrow>
      c \<in> set (connections (acquire_release (db_pool db))) \<union>
          set (closed (acquire_release (db_pool db)))) \<and>
   (connections (db_pool db) \<noteq> [] \<and>
    int (length (connections (db_pool db))) \<le> pool_size (db_pool db) \<longrightarrow>
      acquire_release (db_pool db) = db_pool db)"
  using acquire_release_keeps [of "db_pool db"] acquire_release_restores [of "db_pool db"]
  by (simp only: execute_pool fetch_one_pool fetch_all_pool) blast

theorem connection_returned_on_every_path_witness:
  "fst (execute failing_backend ''DELETE FROM users'' [] db0) = Inl SqliteError \<and>
   db_pool (snd (execute failing_backend ''DELETE FROM users'' [] db0)) = db_pool db0 \<and>
   fst (execute (journal_backend []) ''DELETE FROM users'' [] db0) = Inr [] \<and>
   db_pool (snd (execute (journal_backend []) ''DELETE FROM users'' [] db0)) = db_pool db0"
proof -
  have h: "connections (db_pool db0) \<noteq> [] \<and>
           int (length (connections (db_pool db0))) \<le> pool_size (db_pool db0)"
    by (simp add: db0_def)
  have f: "fst (execute failing_backend ''DELETE FROM users'' [] db0) = Inl SqliteError"
    "fst (execute (journal_backend []) ''DELETE FROM users'' [] db0) = Inr []"
    by (simp_all add: execute_def pool_defs concrete_defs)
  note t = connection_returned_on_every_path
    [where sql = "''DELETE FROM users''" and params = "[]" and db = db0 and bk' = failing_backend]
  from t [where bk = failing_backend] t [where bk = "journal_backend []"] h f
  show ?thesis by simp
qed

text \<open>
  C1. The claim: \<^verbatim>\<open>Database.execute\<close> clears the whole query cache before it returns.
  It does not: on the database \<^const>\<open>db0\<close>, which holds one cached result, a successful
  \<^verbatim>\<open>execute\<close> returns with that entry still in the cache.
\<close>

theorem execute_clears_cache_counterexample:
  "fst (execute (journal_backend []) ''INSERT INTO users (name) VALUES (?)'' [VStr ''A''] db0) =
     Inr [] \<and>
   cache (db_cache (snd (execute (journal_backend []) ''INSERT INTO users (name) VALUES (?)''
     [VStr ''A''] db0))) =
     [(''SELECT * FROM users:()'', VList [VDict [(''id'', VInt 7)]])]"
  by (simp add: execute_def pool_defs concrete_defs)

section \<open>Properties of Model\<close>

lemma execute_success:
  assumes "get_connection (db_pool db) = (Inr conn, p)"
    and "bk_run bk conn sql params (db_store db) = (Inr cur, s1)"
    and "bk_commit bk conn s1 = (None, s2)"
  shows "execute bk sql params db =
     (Inr cur, \<lparr>db_pool = return_connection conn p, db_cache = db_cache db, db_store = s2\<rparr>)"
  using assms by (simp add: execute_def)

lemma save_cache:
  "fst (save bk m db) = Inr b \<Longrightarrow>
   b \<and> cache (db_cache (snd (save bk m db))) = [] \<and> timestamps (db_cache (snd (save bk m db))) = []"
  by (auto simp: save_def clear_def split: prod.splits sum.splits)

lemma delete_cache:
  "fst (delete bk m db) = Inr True \<Longrightarrow>
   cache (db_cache (snd (delete bk m db))) = [] \<and> timestamps (db_cache (snd (delete bk m db))) = []"
  by (auto simp: delete_def clear_def split: prod.splits sum.splits option.splits)

lemma create_table_cache:
  "fst (create_table bk t cols db) = Inr u \<Longrightarrow>
   cache (db_cache (snd (create_table bk t cols db))) = [] \<and>
   timestamps (db_cache (snd (create_table bk t cols db))) = []"
  by (auto simp: create_table_def clear_def Let_def split: prod.splits sum.splits)

text \<open>
  C1, as the code has it. \<^verbatim>\<open>Database.execute\<close> runs the statement on an acquired
  connection, commits, releases the connection and returns the cursor; on every path it
  leaves the query cache exactly as it was. The cache is cleared by the callers: after a
  \<^verbatim>\<open>Model.save\<close>, a \<^verbatim>\<open>Model.delete\<close> of an instance with an id, or a
  \<^verbatim>\<open>Database.create_table\<close> that returned, the cache holds no entries.
\<close>

theorem execute_leaves_cache_to_callers:
  "db_cache (snd (execute bk sql params db)) = db_cache db \<and>
   (\<forall>conn p cur s1 s2.
      get_connection (db_pool db) = (Inr conn, p) \<and>
      bk_run bk conn sql params (db_store db) = (Inr cur, s1) \<and>
      bk_commit bk conn s1 = (None, s2) \<longrightarrow>
      execute bk sql params db =
        (Inr cur, \<lparr>db_pool = return_connection conn p, db_cache = db_cache db, db_store = s2\<rparr>)) \<and>
   (\<forall>b. fst (save bk m db) = Inr b \<longrightarrow>
      cache (db_cache (snd (save bk m db))) = [] \<and>
      timestamps (db_cache (snd (save bk m db))) = []) \<and>
   (fst (delete bk m db) = Inr True \<longrightarrow>
      cache (db_cache (snd (delete bk m db))) = [] \<and>
      timestamps (db_cache (snd (delete bk m db))) = []) \<and>
   (\<forall>u. fst (create_table bk t cols db) = Inr u \<longrightarrow>
      cache (db_cache (snd (create_table bk t cols db))) = [] \<and>
      timestamps (db_cache (snd (create_table bk t cols db))) = [])"
  using execute_success [of db _ _ bk sql params] save_cache [of bk m db]
    delete_cache [of bk m db] create_table_cache [of bk t cols db]
  by (simp only: execute_cache) blast

theorem execute_leaves_cache_to_callers_witness:
  "db_cache (snd (execute (journal_backend []) ''INSERT INTO users (name) VALUES (?)''
      [VStr ''A''] db0)) = db_cache db0 \<and>
   fst (save (journal_backend []) new_user db0) = Inr True \<and>
   cache (db_cache (snd (save (journal_backend []) new_user db0))) = [] \<and>
   fst (delete (journal_backend []) user7 db0) = Inr True \<and>
   cache (db_cache (snd (delete (journal_backend []) user7 db0))) = []"
proof -
  have s: "fst (save (journal_backend []) new_user db0) = Inr True"
    by (simp add: save_def save_statement_def to_dict_def has_truthy_id_def py_getattr_def
        startswith_underscore_def execute_def pool_defs concrete_defs new_user_def)
  have d: "fst (delete (journal_backend []) user7 db0) = Inr True"
    by (simp add: delete_def py_getattr_def execute_def pool_defs concrete_defs user7_def)
  note t = execute_leaves_cache_to_callers [where bk = "journal_backend []" and db = db0
      and sql = "''INSERT INTO users (name) VALUES (?)''" and params = "[VStr ''A'']"]
  have e: "db_cache (snd (execute (journal_backend []) ''INSERT INTO users (name) VALUES (?)''
      [VStr ''A''] db0)) = db_cache db0"
    by (rule t [where m = new_user and t = "[]" and cols = "[]", THEN conjunct1])
  have sv: "cache (db_cache (snd (save (journal_backend []) new_user db0))) = []"
    using t [where m = new_user and t = "[]" and cols = "[]", THEN conjunct2, THEN conjunct2,
        THEN conjunct1, rule_format, OF s]
    by (rule conjunct1)
  have dl: "cache (db_cache (snd (delete (journal_backend []) user7 db0))) = []"
    using t [where m = user7 and t = "[]" and cols = "[]", THEN conjunct2, THEN conjunct2,
        THEN conjunct2, THEN conjunct1, rule_format, OF d]
    by (rule conjunct1)
  from e s sv d dl show ?thesis by (intro conjI)
qed

subsection \<open>Positional binding of the statements of save\<close>

lemma bind_set_clause:
  assumes "list_all (\<lambda>kv. placeholders (fst kv) = 0) kvs"
  shows "placeholders (py_join '', '' (map (\<lambda>kv. fst kv @ '' = ?'') kvs)) = length kvs \<and>
    bind_params (py_join '', '' (map (\<lambda>kv. fst kv @ '' = ?'') kvs)) (map snd kvs) =
      py_join (map Inl '', '') (map (\<lambda>kv. map Inl (fst kv @ '' = '') @ [Inr (snd kv)]) kvs)"
proof -
  let ?ps = "map (\<lambda>kv. (fst kv @ '' = ?'', [snd kv])) kvs"
  have s: "placeholders '', '' = 0" by simp
  have p: "list_all (\<lambda>p. placeholders (fst p) = length (snd p)) ?ps"
    using assms by (induction kvs) simp_all
  have b: "map (\<lambda>p. bind_params (fst p) (snd p)) ?ps =
      map (\<lambda>kv. map Inl (fst kv @ '' = '') @ [Inr (snd kv)]) kvs"
    using assms by (induction kvs) (simp_all add: bind_params_append bind_params_plain)
  have m: "map fst ?ps = map (\<lambda>kv. fst kv @ '' = ?'') kvs" "concat (map snd ?ps) = map snd kvs"
    by (induction kvs) simp_all
  from bind_params_joined [OF s p] show ?thesis
    unfolding b m by simp
qed

lemma bind_placeholder_list:
  "placeholders (py_join '', '' (map (\<lambda>_. ''?'') kvs)) = length kvs \<and>
   bind_params (py_join '', '' (map (\<lambda>_. ''?'') kvs)) (map snd kvs) =
     py_join (map Inl '', '') (map (\<lambda>kv. [Inr (snd kv)]) kvs)"
proof -
  let ?ps = "map (\<lambda>kv. (''?'', [snd kv])) kvs"
  have s: "placeholders '', '' = 0" by simp
  have p: "list_all (\<lambda>p. placeholders (fst p) = length (snd p)) ?ps"
    by (induction kvs) simp_all
  have b: "map (\<lambda>p. bind_params (fst p) (snd p)) ?ps = map (\<lambda>kv. [Inr (snd kv)]) kvs"
    by (induction kvs) simp_all
  have m: "map fst ?ps = map (\<lambda>_. ''?'') kvs" "concat (map snd ?ps) = map snd kvs"
    by (induction kvs) simp_all
  from bind_params_joined [OF s p] show ?thesis
    unfolding b m by simp
qed

lemma filter_keys: "filter P (map fst kvs) = map fst (filter (\<lambda>kv. P (fst kv)) kvs)"
  by (induction kvs) simp_all

lemma update_binding:
  assumes "placeholders (tablename m) = 0"
    and "list_all (\<lambda>kv. placeholders (fst kv) = 0) (to_dict m)"
    and "py_getattr m ''id'' = Some idv" and "truthy idv"
  shows "bind_params (fst (save_statement m)) (snd (save_statement m)) =
     map Inl (''UPDATE '' @ tablename m @ '' SET '') @
     py_join (map Inl '', '')
       (map (\<lambda>kv. map Inl (fst kv @ '' = '') @ [Inr (snd kv)])
          (filter (\<lambda>kv. fst kv \<noteq> ''id'') (to_dict m))) @
     map Inl '' WHERE id = '' @ [Inr idv]"
proof -
  let ?nk = "filter (\<lambda>kv. fst kv \<noteq> ''id'') (to_dict m)"
  let ?A = "''UPDATE '' @ tablename m @ '' SET ''"
  let ?W = "py_join '', '' (map (\<lambda>kv. fst kv @ '' = ?'') ?nk)"
  have n: "list_all (\<lambda>kv. placeholders (fst kv) = 0) ?nk"
    using assms(2) by (simp add: list_all_iff)
  from bind_set_clause [OF n]
  have w: "placeholders ?W = length (map snd ?nk)"
    and b: "bind_params ?W (map snd ?nk) =
      py_join (map Inl '', '') (map (\<lambda>kv. map Inl (fst kv @ '' = '') @ [Inr (snd kv)]) ?nk)"
    by simp_all
  have a: "placeholders ?A = 0" using assms(1) by simp
  have st: "save_statement m = (?A @ ?W @ '' WHERE id = ?'', map snd ?nk @ [idv])"
    using assms(3,4)
    by (simp add: save_statement_def has_truthy_id_def Let_def filter_keys comp_def)
  have "bind_params (?A @ ?W @ '' WHERE id = ?'') (map snd ?nk @ [idv]) =
      map Inl ?A @ bind_params ?W (map snd ?nk @ [idv]) @
      bind_params '' WHERE id = ?'' (drop (placeholders ?W) (map snd ?nk @ [idv]))"
    by (simp only: bind_params_after_plain [OF a] bind_params_append [of ?W])
  also have "bind_params ?W (map snd ?nk @ [idv]) = bind_params ?W (map snd ?nk)"
    using w by (intro bind_params_enough) simp
  also have "drop (placeholders ?W) (map snd ?nk @ [idv]) = [idv]"
    using w by simp
  finally show ?thesis
    unfolding st b by simp
qed

lemma insert_binding:
  assumes "placeholders (tablename m) = 0"
    and "list_all (\<lambda>kv. placeholders (fst kv) = 0) (to_dict m)"
    and "\<not> has_truthy_id m"
  shows "bind_params (fst (save_statement m)) (snd (save_statement m)) =
     map Inl (''INSERT INTO '' @ tablename m @ '' ('' @ py_join '', '' (map fst (to_dict m)) @
              '') VALUES ('') @
     py_join (map Inl '', '') (map (\<lambda>kv. [Inr (snd kv)]) (to_dict m)) @
     map Inl '')''"
proof -
  let ?A = "''INSERT INTO '' @ tablename m @ '' ('' @ py_join '', '' (map fst (to_dict m)) @
              '') VALUES (''"
  let ?W = "py_join '', '' (map (\<lambda>_. ''?'') (to_dict m))"
  have c: "list_all (\<lambda>x. placeholders x = 0) (map fst (to_dict m))"
    using assms(2) by (simp add: list_all_iff)
  have a: "placeholders ?A = 0"
    using assms(1) c by (simp add: placeholders_py_join_plain)
  have z: "placeholders '')'' = 0" by simp
  from bind_placeholder_list [of "to_dict m"]
  have w: "placeholders ?W = length (map snd (to_dict m))"
    and b: "bind_params ?W (map snd (to_dict m)) =
      py_join (map Inl '', '') (map (\<lambda>kv. [Inr (snd kv)]) (to_dict m))"
    by simp_all
  have st: "save_statement m = (?A @ ?W @ '')'', map snd (to_dict m))"
    using assms(3) by (simp add: save_statement_def Let_def)
  from bind_params_sandwich [OF a z w] show ?thesis
    unfolding st b by simp
qed

lemma startswith_underscore_take: "startswith_underscore k \<longleftrightarrow> take 1 k = ''_''"
  by (cases k) (simp_all add: startswith_underscore_def)

lemma to_dict_inst_dict: "to_dict m = filter (\<lambda>kv. take 1 (fst kv) \<noteq> ''_'') (inst_dict m)"
  by (simp add: to_dict_def startswith_underscore_take)

text \<open>
  C6. The claim: the \<^verbatim>\<open>INSERT\<close> carries all attributes present on the instance and the
  \<^verbatim>\<open>UPDATE\<close> every non-key attribute. Both leave out the attributes whose names start
  with an underscore: an instance with \<^verbatim>\<open>name\<close> and \<^verbatim>\<open>_secret\<close> is inserted with
  the column \<^verbatim>\<open>name\<close> alone, and one that also has the id 7 is updated in \<^verbatim>\<open>name\<close>
  alone.
\<close>

theorem save_skips_underscore_counterexample:
  "map_of (inst_dict secret_user) ''_secret'' = Some (VInt 1) \<and>
   save_statement secret_user = (''INSERT INTO users (name) VALUES (?)'', [VStr ''A'']) \<and>
   map_of (inst_dict secret_user7) ''_secret'' = Some (VInt 1) \<and>
   save_statement secret_user7 =
     (''UPDATE users SET name = ? WHERE id = ?'', [VStr ''A'', VInt 7])"
  by (simp add: save_statement_def has_truthy_id_def py_getattr_def to_dict_def
      startswith_underscore_def secret_user_def secret_user7_def)

text \<open>
  C6, as the code has it. Let \<open>attrs\<close> be the entries of \<^verbatim>\<open>self.__dict__\<close>, in order,
  whose names do not start with an underscore. \<^verbatim>\<open>save()\<close> dispatches on the \<^verbatim>\<open>id\<close>
  attribute. With a truthy id it hands \<^verbatim>\<open>execute\<close> an \<^verbatim>\<open>UPDATE\<close> that sets every
  entry of \<open>attrs\<close> other than \<^verbatim>\<open>id\<close>, keyed by \<^verbatim>\<open>id = ?\<close>, the id bound last. Without
  an id attribute, or with a falsy one such as 0, it hands over an \<^verbatim>\<open>INSERT\<close> of all
  entries of \<open>attrs\<close>. When neither the table name nor a name in \<open>attrs\<close> contains a
  placeholder, binding the values to the text gives every column of the \<^verbatim>\<open>UPDATE\<close> its
  own value and the id to the \<^verbatim>\<open>WHERE\<close> clause, and every column of the \<^verbatim>\<open>INSERT\<close>
  its own value. Once \<^verbatim>\<open>execute\<close> has returned, \<^verbatim>\<open>save\<close> clears the cache and
  returns \<^verbatim>\<open>True\<close>.
\<close>

theorem save_dispatches_on_id:
  assumes "attrs = filter (\<lambda>kv. take 1 (fst kv) \<noteq> ''_'') (inst_dict m)"
  shows
  "(has_truthy_id m \<longleftrightarrow> (\<exists>idv. py_getattr m ''id'' = Some idv \<and> truthy idv)) \<and>
   (\<forall>idv. py_getattr m ''id'' = Some idv \<and> truthy idv \<longrightarrow>
      save_statement m =
        (''UPDATE '' @ tablename m @ '' SET '' @
           py_join '', '' (map (\<lambda>k. k @ '' = ?'') (filter (\<lambda>k. k \<noteq> ''id'') (map fst attrs))) @
           '' WHERE id = ?'',
         map snd (filter (\<lambda>kv. fst kv \<noteq> ''id'') attrs) @ [idv])) \<and>
   (py_getattr m ''id'' = None \<or> (\<exists>idv. py_getattr m ''id'' = Some idv \<and> \<not> truthy idv) \<longrightarrow>
      save_statement m =
        (''INSERT INTO '' @ tablename m @ '' ('' @ py_join '', '' (map fst attrs) @
           '') VALUES ('' @ py_join '', '' (map (\<lambda>_. ''?'') attrs) @ '')'',
         map snd attrs)) \<and>
   \<not> truthy (VInt 0) \<and>
   (placeholders (tablename m) = 0 \<and> list_all (\<lambda>kv. placeholders (fst kv) = 0) attrs \<longrightarrow>
      (\<forall>idv. py_getattr m ''id'' = Some idv \<and> truthy idv \<longrightarrow>
         bind_params (fst (save_statement m)) (snd (save_statement m)) =
           map Inl (''UPDATE '' @ tablename m @ '' SET '') @
           py_join (map Inl '', '')
             (map (\<lambda>kv. map Inl (fst kv @ '' = '') @ [Inr (snd kv)])
                (filter (\<lambda>kv. fst kv \<noteq> ''id'') attrs)) @
           map Inl '' WHERE id = '' @ [Inr idv]) \<and>
      (\<not> has_truthy_id m \<longrightarrow>
         bind_params (fst (save_statement m)) (snd (save_statement m)) =
           map Inl (''INSERT INTO '' @ tablename m @ '' ('' @ py_join '', '' (map fst attrs) @
                    '') VALUES ('') @
           py_join (map Inl '', '') (map (\<lambda>kv. [Inr (snd kv)]) attrs) @
           map Inl '')'')) \<and>
   save bk m db =
     (case execute bk (fst (save_statement m)) (snd (save_statement m)) db of
        (Inl e, db') \<Rightarrow> (Inl e, db')
      | (Inr cur, db') \<Rightarrow> (Inr True, db'\<lparr>db_cache := clear (db_cache db')\<rparr>))"
proof -
  have td: "attrs = to_dict m" by (simp add: assms to_dict_inst_dict)
  show ?thesis
    unfolding td
  proof (intro conjI allI impI; (elim conjE)?)
    show "has_truthy_id m \<longleftrightarrow> (\<exists>idv. py_getattr m ''id'' = Some idv \<and> truthy idv)"
      by (auto simp: has_truthy_id_def split: option.splits)
  next
    fix idv
    assume "py_getattr m ''id'' = Some idv" "truthy idv"
    then show "save_statement m =
          (''UPDATE '' @ tablename m @ '' SET '' @
             py_join '', '' (map (\<lambda>k. k @ '' = ?'') (filter (\<lambda>k. k \<noteq> ''id'') (map fst (to_dict m)))) @
             '' WHERE id = ?'',
           map snd (filter (\<lambda>kv. fst kv \<noteq> ''id'') (to_dict m)) @ [idv])"
      by (simp add: save_statement_def has_truthy_id_def Let_def)
  next
    assume "py_getattr m ''id'' = None \<or> (\<exists>idv. py_getattr m ''id'' = Some idv \<and> \<not> truthy idv)"
    then have "\<not> has_truthy_id m"
      by (auto simp: has_truthy_id_def)
    then show "save_statement m =
          (''INSERT INTO '' @ tablename m @ '' ('' @ py_join '', '' (map fst (to_dict m)) @
             '') VALUES ('' @ py_join '', '' (map (\<lambda>_. ''?'') (to_dict m)) @ '')'',
           map snd (to_dict m))"
      by (simp add: save_statement_def Let_def)
  next
    show "\<not> truthy (VInt 0)" by simp
  next
    fix idv
    assume "placeholders (tablename m) = 0"
      "list_all (\<lambda>kv. placeholders (fst kv) = 0) (to_dict m)"
      "py_getattr m ''id'' = Some idv" "truthy idv"
    then show "bind_params (fst (save_statement m)) (snd (save_statement m)) =
             map Inl (''UPDATE '' @ tablename m @ '' SET '') @
             py_join (map Inl '', '')
               (map (\<lambda>kv. map Inl (fst kv @ '' = '') @ [Inr (snd kv)])
                  (filter (\<lambda>kv. fst kv \<noteq> ''id'') (to_dict m))) @
             map Inl '' WHERE id = '' @ [Inr idv]"
      by (rule update_binding)
  next
    assume "placeholders (tablename m) = 0"
      "list_all (\<lambda>kv. placeholders (fst kv) = 0) (to_dict m)"
      "\<not> has_truthy_id m"
    then show "bind_params (fst (save_statement m)) (snd (save_statement m)) =
             map Inl (''INSERT INTO '' @ tablename m @ '' ('' @ py_join '', '' (map fst (to_dict m)) @
                      '') VALUES ('') @
             py_join (map Inl '', '') (map (\<lambda>kv. [Inr (snd kv)]) (to_dict m)) @
             map Inl '')''"
      by (rule insert_binding)
  next
    show "save bk m db =
       (case execute bk (fst (save_statement m)) (snd (save_statement m)) db of
          (Inl e, db') \<Rightarrow> (Inl e, db')
        | (Inr cur, db') \<Rightarrow> (Inr True, db'\<lparr>db_cache := clear (db_cache db')\<rparr>))"
      by (simp add: save_def split: prod.splits)
  qed
qed

theorem save_dispatches_on_id_witness:
  "save_statement user7 = (''UPDATE users SET name = ? WHERE id = ?'', [VStr ''A'', VInt 7]) \<and>
   save_statement new_user = (''INSERT INTO users (name) VALUES (?)'', [VStr ''A'']) \<and>
   save_statement user0 =
     (''INSERT INTO users (id, name) VALUES (?, ?)'', [VInt 0, VStr ''A'']) \<and>
   save_statement secret_user7 =
     (''UPDATE users SET name = ? WHERE id = ?'', [VStr ''A'', VInt 7]) \<and>
   bind_params (fst (save_statement user7)) (snd (save_statement user7)) =
     map Inl ''UPDATE users SET name = '' @ Inr (VStr ''A'') #
     map Inl '' WHERE id = '' @ [Inr (VInt 7)]"
proof -
  have a: "py_getattr user7 ''id'' = Some (VInt 7) \<and> truthy (VInt 7)"
    by (simp add: py_getattr_def user7_def)
  have b: "py_getattr new_user ''id'' = None \<or>
           (\<exists>idv. py_getattr new_user ''id'' = Some idv \<and> \<not> truthy idv)"
    by (simp add: py_getattr_def new_user_def)
  have c: "py_getattr user0 ''id'' = None \<or>
           (\<exists>idv. py_getattr user0 ''id'' = Some idv \<and> \<not> truthy idv)"
    by (simp add: py_getattr_def user0_def)
  have e: "py_getattr secret_user7 ''id'' = Some (VInt 7) \<and> truthy (VInt 7)"
    by (simp add: py_getattr_def secret_user7_def)
  have p: "placeholders (tablename user7) = 0 \<and>
           list_all (\<lambda>kv. placeholders (fst kv) = 0)
             (filter (\<lambda>kv. take 1 (fst kv) \<noteq> ''_'') (inst_dict user7))"
    by (simp add: user7_def)
  note d = user7_def new_user_def user0_def secret_user7_def
  from save_dispatches_on_id [OF refl, where m = user7, THEN conjunct2, THEN conjunct1,
      rule_format, OF a]
  have 1: "save_statement user7 =
      (''UPDATE users SET name = ? WHERE id = ?'', [VStr ''A'', VInt 7])"
    by (simp add: d)
  from save_dispatches_on_id [OF refl, where m = new_user, THEN conjunct2, THEN conjunct2,
      THEN conjunct1, rule_format, OF b]
  have 2: "save_statement new_user = (''INSERT INTO users (name) VALUES (?)'', [VStr ''A''])"
    by (simp add: d)
  from save_dispatches_on_id [OF refl, where m = user0, THEN conjunct2, THEN conjunct2,
      THEN conjunct1, rule_format, OF c]
  have 3: "save_statement user0 =
      (''INSERT INTO users (id, name) VALUES (?, ?)'', [VInt 0, VStr ''A''])"
    by (simp add: d)
  from save_dispatches_on_id [OF refl, where m = secret_user7, THEN conjunct2, THEN conjunct1,
      rule_format, OF e]
  have 4: "save_statement secret_user7 =
      (''UPDATE users SET name = ? WHERE id = ?'', [VStr ''A'', VInt 7])"
    by (simp add: d)
  from save_dispatches_on_id [OF refl, where m = user7, THEN conjunct2, THEN conjunct2,
      THEN conjunct2, THEN conjunct2, THEN conjunct1, rule_format, OF p, THEN conjunct1,
      rule_format, OF a]
  have 5: "bind_params (fst (save_statement user7)) (snd (save_statement user7)) =
     map Inl ''UPDATE users SET name = '' @ Inr (VStr ''A'') #
     map Inl '' WHERE id = '' @ [Inr (VInt 7)]"
    by (simp add: d)
  from 1 2 3 4 5 show ?thesis by (intro conjI)
qed

text \<open>
  C9. \<^verbatim>\<open>delete()\<close> returns \<^verbatim>\<open>False\<close> exactly when the instance has no \<^verbatim>\<open>id\<close>
  attribute, and then the database (pool, cache and store) is as before. With an id
  attribute it hands \<^verbatim>\<open>DELETE FROM <table> WHERE id = ?\<close> with the id as the one bound
  value to \<^verbatim>\<open>execute\<close>; when the statement runs and commits without an exception the
  store is the committed one, the cache is cleared and the result is \<^verbatim>\<open>True\<close>, and an
  exception of \<^verbatim>\<open>execute\<close> propagates instead.
\<close>

theorem delete_requires_id:
  "(fst (delete bk m db) = Inr False \<longleftrightarrow> py_getattr m ''id'' = None) \<and>
   (py_getattr m ''id'' = None \<longrightarrow> delete bk m db = (Inr False, db)) \<and>
   (\<forall>idv conn p cur s1 s2.
      py_getattr m ''id'' = Some idv \<and>
      get_connection (db_pool db) = (Inr conn, p) \<and>
      bk_run bk conn (''DELETE FROM '' @ tablename m @ '' WHERE id = ?'') [idv] (db_store db) =
        (Inr cur, s1) \<and>
      bk_commit bk conn s1 = (None, s2) \<longrightarrow>
      delete bk m db =
        (Inr True,
         \<lparr>db_pool = return_connection conn p, db_cache = clear (db_cache db), db_store = s2\<rparr>)) \<and>
   (\<forall>idv. py_getattr m ''id'' = Some idv \<longrightarrow>
      delete bk m db =
        (case execute bk (''DELETE FROM '' @ tablename m @ '' WHERE id = ?'') [idv] db of
           (Inl e, db') \<Rightarrow> (Inl e, db')
         | (Inr cur, db') \<Rightarrow> (Inr True, db'\<lparr>db_cache := clear (db_cache db')\<rparr>)))"
proof (intro conjI allI impI; (elim conjE)?)
  show "fst (delete bk m db) = Inr False \<longleftrightarrow> py_getattr m ''id'' = None"
    by (auto simp: delete_def split: option.splits prod.splits sum.splits)
next
  assume "py_getattr m ''id'' = None"
  then show "delete bk m db = (Inr False, db)" by (simp add: delete_def)
next
  fix idv conn p cur s1 s2
  assume i: "py_getattr m ''id'' = Some idv"
    and e: "get_connection (db_pool db) = (Inr conn, p)"
      "bk_run bk conn (''DELETE FROM '' @ tablename m @ '' WHERE id = ?'') [idv] (db_store db) =
        (Inr cur, s1)"
      "bk_commit bk conn s1 = (None, s2)"
  from execute_success [OF e] i
  show "delete bk m db =
      (Inr True, \<lparr>db_pool = return_connection conn p, db_cache = clear (db_cache db), db_store = s2\<rparr>)"
    by (simp add: delete_def)
next
  fix idv
  assume "py_getattr m ''id'' = Some idv"
  then show "delete bk m db =
      (case execute bk (''DELETE FROM '' @ tablename m @ '' WHERE id = ?'') [idv] db of
         (Inl e, db') \<Rightarrow> (Inl e, db')
       | (Inr cur, db') \<Rightarrow> (Inr True, db'\<lparr>db_cache := clear (db_cache db')\<rparr>))"
    by (simp add: delete_def)
qed

theorem delete_requires_id_witness:
  "delete (journal_backend []) new_user db0 = (Inr False, db0) \<and>
   delete (journal_backend []) user7 db0 =
     (Inr True,
      \<lparr>db_pool = db_pool db0, db_cache = \<lparr>cache = [], timestamps = [], max_size = 1000, ttl = 3600\<rparr>,
       db_store = \<lparr>pending = [], committed = [(''DELETE FROM users WHERE id = ?'', [VInt 7])]\<rparr>\<rparr>)"
proof -
  have n: "py_getattr new_user ''id'' = None"
    by (simp add: py_getattr_def new_user_def)
  have h: "py_getattr user7 ''id'' = Some (VInt 7) \<and>
      get_connection (db_pool db0) = (Inr (Conn 0), (db_pool db0)\<lparr>connections := []\<rparr>) \<and>
      bk_run (journal_backend []) (Conn 0) (''DELETE FROM '' @ tablename user7 @ '' WHERE id = ?'')
        [VInt 7] (db_store db0) =
        (Inr [], \<lparr>pending = [(''DELETE FROM users WHERE id = ?'', [VInt 7])], committed = []\<rparr>) \<and>
      bk_commit (journal_backend []) (Conn 0)
        \<lparr>pending = [(''DELETE FROM users WHERE id = ?'', [VInt 7])], committed = []\<rparr> =
        (None, \<lparr>pending = [], committed = [(''DELETE FROM users WHERE id = ?'', [VInt 7])]\<rparr>)"
    by (simp add: py_getattr_def user7_def get_connection_def concrete_defs)
  have r: "return_connection (Conn 0) ((db_pool db0)\<lparr>connections := []\<rparr>) = db_pool db0"
    by (simp add: return_connection_def concrete_defs)
  from delete_requires_id [of "journal_backend []" new_user db0, THEN conjunct2, THEN conjunct1,
      rule_format, OF n]
    delete_requires_id [of "journal_backend []" user7 db0, THEN conjunct2, THEN conjunct2,
      THEN conjunct1, rule_format, OF h] r
  show ?thesis by (simp add: clear_def db0_def)
qed

end
